theory Spec2Isabelle
  imports Main "HOL-Library.Sublist"
begin

section \<open>Linear webhook bridge: data model\<close>

text \<open>
  The development follows \<^verbatim>\<open>src/extensions/linear-webhook/index.ts\<close>.
  Strings are \<^typ>\<open>string\<close> (lists of 8-bit code units). The type
  \<^verbatim>\<open>TriggerEntry\<close> of the source is a record; the argument type of
  \<^verbatim>\<open>writeTrigger\<close>, \<^verbatim>\<open>Omit<TriggerEntry, "status">\<close>, is the record
  \<open>TriggerInput\<close>, and \<open>TriggerEntry\<close> extends it by the status field.
\<close>

datatype Source = webhook | poll

datatype Status = pending | spawned | skipped

record TriggerInput =
  issueId :: string
  issueTitle :: string
  stateId :: string
  triggeredAt :: string
  source :: Source
  storyFilePath :: "string option"

record TriggerEntry = TriggerInput +
  status :: Status

text \<open>
  The exceptions of the model: \<^verbatim>\<open>JSON.parse\<close> on a text that is not JSON, the
  destructuring of a request body whose JSON value is \<^verbatim>\<open>null\<close>, and a rejected
  request to the tracker.
\<close>

datatype error = SyntaxError string | TypeError string | NetworkError string

text \<open>
  The push payload \<^verbatim>\<open>{ type, action, data, updatedFrom }\<close>. The source reads it
  untyped, through \<^verbatim>\<open>?.\<close> and \<^verbatim>\<open>??\<close>; a field that is absent, \<^verbatim>\<open>undefined\<close>
  or \<^verbatim>\<open>null\<close> is \<open>None\<close> here, and a field that is present is a string.
\<close>

record StateRef =
  state_id :: "string option"

record IssueData =
  data_identifier :: "string option"
  data_id :: "string option"
  data_title :: "string option"
  data_description :: "string option"
  data_teamId :: "string option"
  data_stateId :: "string option"
  data_state :: "StateRef option"

record UpdatedFrom =
  from_stateId :: "string option"

record Payload =
  payload_type :: "string option"
  payload_action :: "string option"
  payload_data :: "IssueData option"
  payload_updatedFrom :: "UpdatedFrom option"

text \<open>
  The library functions the source calls are parameters of the model:
  \<^verbatim>\<open>JSON.parse\<close> on a ledger line (\<open>None\<close> when it throws), \<^verbatim>\<open>JSON.stringify\<close>
  on a trigger entry, \<^verbatim>\<open>JSON.parse\<close> followed by the destructuring of the request
  body (\<open>Inl\<close> the exception when either throws),
  \<^verbatim>\<open>createHmac("sha256", secret).update(body).digest("hex")\<close>, and the clock behind
  \<^verbatim>\<open>new Date().toISOString()\<close>, as the text of its \<open>n\<close>-th reading.
\<close>

record Platform =
  JSON_parse :: "string \<Rightarrow> TriggerEntry option"
  JSON_stringify :: "TriggerEntry \<Rightarrow> string"
  JSON_parse_payload :: "string \<Rightarrow> error + Payload"
  createHmac_sha256_hex :: "string \<Rightarrow> string \<Rightarrow> string"
  toISOString :: "nat \<Rightarrow> string"

section \<open>Signature verifier\<close>

text \<open>
  \<^verbatim>\<open>verifySignature(body, signature, secret)\<close>: \<^verbatim>\<open>!secret\<close> and \<^verbatim>\<open>!signature\<close>
  hold of a string exactly when it is empty.
\<close>

definition verifySignature :: "Platform \<Rightarrow> string \<Rightarrow> string \<Rightarrow> string \<Rightarrow> bool" where
  "verifySignature P body signature secret =
     (if secret = [] \<or> signature = [] then False
      else (let computed = createHmac_sha256_hex P secret body in computed = signature))"

section \<open>Trigger ledger\<close>

text \<open>
  The ledger file is its content, or \<open>None\<close> while the file does not exist.
  \<^verbatim>\<open>split("\n")\<close> cuts the content at every line feed (an empty content gives one
  empty piece), \<^verbatim>\<open>filter(Boolean)\<close> drops the empty pieces, and
  \<^verbatim>\<open>lines.map(JSON.parse)\<close> throws at the first line that does not parse.
\<close>

definition LF :: char where
  "LF = CHR 0x0A"

fun split_at :: "char \<Rightarrow> string \<Rightarrow> string list" where
  "split_at c [] = [[]]"
| "split_at c (x # xs) =
     (if x = c then [] # split_at c xs
      else (case split_at c xs of
              [] \<Rightarrow> [[x]]
            | l # ls \<Rightarrow> (x # l) # ls))"

definition file_lines :: "string \<Rightarrow> string list" where
  "file_lines content = filter (\<lambda>l. l \<noteq> []) (split_at LF content)"

fun parse_lines :: "Platform \<Rightarrow> string list \<Rightarrow> error + TriggerEntry list" where
  "parse_lines P [] = Inr []"
| "parse_lines P (l # ls) =
     (case JSON_parse P l of
        None \<Rightarrow> Inl (SyntaxError l)
      | Some e \<Rightarrow>
          (case parse_lines P ls of
             Inl err \<Rightarrow> Inl err
           | Inr es \<Rightarrow> Inr (e # es)))"

definition readTriggerLog :: "Platform \<Rightarrow> string option \<Rightarrow> error + TriggerEntry list" where
  "readTriggerLog P triggerFile =
     (case triggerFile of
        None \<Rightarrow> Inr []
      | Some content \<Rightarrow> parse_lines P (file_lines content))"

text \<open>\<^verbatim>\<open>appendFileSync\<close> creates the file when it does not exist.\<close>

definition appendFileSync :: "string option \<Rightarrow> string \<Rightarrow> string option" where
  "appendFileSync led text =
     (case led of None \<Rightarrow> Some text | Some content \<Rightarrow> Some (content @ text))"

text \<open>The object \<^verbatim>\<open>{ ...entry, status: "pending" }\<close>.\<close>

definition fullEntry :: "TriggerInput \<Rightarrow> TriggerEntry" where
  "fullEntry entry =
     \<lparr> issueId = issueId entry, issueTitle = issueTitle entry, stateId = stateId entry,
       triggeredAt = triggeredAt entry, source = source entry,
       storyFilePath = storyFilePath entry, status = pending \<rparr>"

text \<open>The test of \<^verbatim>\<open>existing.some(...)\<close> in \<^verbatim>\<open>writeTrigger\<close>.\<close>

definition blocks :: "string \<Rightarrow> TriggerEntry \<Rightarrow> bool" where
  "blocks i e = (issueId e = i \<and> (status e = pending \<or> status e = spawned))"

text \<open>
  \<^verbatim>\<open>writeTrigger\<close> returns whether it wrote, with the file as it leaves it; an
  exception of \<^verbatim>\<open>readTriggerLog\<close> propagates. The directory that \<^verbatim>\<open>mkdirSync\<close>
  creates is not part of the model.
\<close>

definition writeTrigger ::
  "Platform \<Rightarrow> string option \<Rightarrow> TriggerInput \<Rightarrow> error + (bool \<times> string option)" where
  "writeTrigger P triggerFile entry =
     (case readTriggerLog P triggerFile of
        Inl err \<Rightarrow> Inl err
      | Inr existing \<Rightarrow>
          (let alreadyExists = list_ex (blocks (issueId entry)) existing in
           if alreadyExists then Inr (False, triggerFile)
           else Inr (True,
                  appendFileSync triggerFile (JSON_stringify P (fullEntry entry) @ [LF]))))"

text \<open>A sequence of admission attempts, one \<^verbatim>\<open>writeTrigger\<close> call after the other.\<close>

fun admit_all ::
  "Platform \<Rightarrow> string option \<Rightarrow> TriggerInput list \<Rightarrow> error + (bool list \<times> string option)" where
  "admit_all P led [] = Inr ([], led)"
| "admit_all P led (x # xs) =
     (case writeTrigger P led x of
        Inl err \<Rightarrow> Inl err
      | Inr (written, led') \<Rightarrow>
          (case admit_all P led' xs of
             Inl err \<Rightarrow> Inl err
           | Inr (ws, led'') \<Rightarrow> Inr (written # ws, led'')))"

text \<open>
  What the model asks of \<^verbatim>\<open>JSON.stringify\<close> and \<^verbatim>\<open>JSON.parse\<close> at one entry: the
  text parses back to the entry, it is not empty, and it has no line feed in it.
\<close>

definition codec_ok :: "Platform \<Rightarrow> TriggerEntry \<Rightarrow> bool" where
  "codec_ok P e =
     (JSON_parse P (JSON_stringify P e) = Some e \<and> JSON_stringify P e \<noteq> [] \<and>
      LF \<notin> set (JSON_stringify P e))"

text \<open>A ledger file that is absent, empty, or ends with a line feed.\<close>

definition ends_clean :: "string option \<Rightarrow> bool" where
  "ends_clean led = (case led of None \<Rightarrow> True | Some c \<Rightarrow> c = [] \<or> last c = LF)"

section \<open>Story path extraction\<close>

text \<open>
  \<^verbatim>\<open>description.match(/_bmad-output\/stories\/[^\s"'\)]+\.md/)\<close>. The pattern is a
  sequence of literal characters and one greedy repetition \<^verbatim>\<open>[^...]+\<close> of a
  character class. The matcher below is the backtracking one of the language: a
  repetition first takes the longest run of class characters and gives characters back
  one at a time, down to one, until the rest of the pattern matches; \<^verbatim>\<open>match\<close> without
  the \<^verbatim>\<open>g\<close> flag returns the match at the leftmost position that has one.
\<close>

datatype 'a rx_item = Lit 'a | Plus "'a \<Rightarrow> bool"

fun greedy :: "(nat \<Rightarrow> nat option) \<Rightarrow> nat \<Rightarrow> nat option" where
  "greedy k 0 = None"
| "greedy k (Suc n) =
     (case k (Suc n) of
        Some m \<Rightarrow> Some (Suc n + m)
      | None \<Rightarrow> greedy k n)"

text \<open>\<open>match_here r s\<close> is the length of the match of \<open>r\<close> at the start of \<open>s\<close>.\<close>

fun match_here :: "'a rx_item list \<Rightarrow> 'a list \<Rightarrow> nat option" where
  "match_here [] s = Some 0"
| "match_here (Lit c # r) s =
     (case s of
        [] \<Rightarrow> None
      | x # xs \<Rightarrow> if x = c then map_option Suc (match_here r xs) else None)"
| "match_here (Plus p # r) s =
     greedy (\<lambda>n. match_here r (drop n s)) (length (takeWhile p s))"

fun regex_search :: "'a rx_item list \<Rightarrow> 'a list \<Rightarrow> 'a list option" where
  "regex_search r [] = map_option (\<lambda>n. []) (match_here r [])"
| "regex_search r (x # xs) =
     (case match_here r (x # xs) of
        Some n \<Rightarrow> Some (take n (x # xs))
      | None \<Rightarrow> regex_search r xs)"

text \<open>
  A text of the language is a sequence of UTF-16 code units, and the pattern, which has
  no \<^verbatim>\<open>u\<close> flag, matches code unit by code unit. A code unit is a natural number here
  (below 65536 in the language; the matcher does not use the bound). \<open>units s\<close> are the
  code units of a string of code units below 256.
\<close>

definition units :: "string \<Rightarrow> nat list" where
  "units s = map of_char s"

definition dquote :: nat where
  "dquote = 0x22"

definition squote :: nat where
  "squote = 0x27"

definition lparen :: nat where
  "lparen = 0x28"

definition rparen :: nat where
  "rparen = 0x29"

text \<open>
  The class \<^verbatim>\<open>\s\<close>: the white space of the language (tab, vertical tab, form feed,
  space, no-break space, U+FEFF and the space separators U+1680, U+2000 to U+200A,
  U+202F, U+205F, U+3000) and its line terminators (line feed, carriage return, U+2028,
  U+2029).
\<close>

definition is_space :: "nat \<Rightarrow> bool" where
  "is_space c =
     (c \<in> set [0x09, 0x0A, 0x0B, 0x0C, 0x0D, 0x20, 0xA0, 0x1680,
                0x2000, 0x2001, 0x2002, 0x2003, 0x2004, 0x2005, 0x2006, 0x2007, 0x2008,
                0x2009, 0x200A, 0x2028, 0x2029, 0x202F, 0x205F, 0x3000, 0xFEFF])"

text \<open>The class \<^verbatim>\<open>[^\s"'\)]\<close>.\<close>

definition path_char :: "nat \<Rightarrow> bool" where
  "path_char c = (\<not> is_space c \<and> c \<noteq> dquote \<and> c \<noteq> squote \<and> c \<noteq> rparen)"

definition STORY_ROOT :: "nat list" where
  "STORY_ROOT = units ''_bmad-output/stories/''"

definition STORY_EXT :: "nat list" where
  "STORY_EXT = units ''.md''"

definition story_rx :: "nat rx_item list" where
  "story_rx = map Lit STORY_ROOT @ [Plus path_char] @ map Lit STORY_EXT"

text \<open>
  \<^verbatim>\<open>extractStoryFilePath\<close>: the argument is \<open>None\<close> for \<^verbatim>\<open>null\<close> and \<^verbatim>\<open>undefined\<close>;
  \<^verbatim>\<open>!description\<close> holds of these and of the empty string.
\<close>

definition extractStoryFilePath :: "nat list option \<Rightarrow> nat list option" where
  "extractStoryFilePath description =
     (case description of
        None \<Rightarrow> None
      | Some d \<Rightarrow> if d = [] then None else regex_search story_rx d)"

text \<open>
  The texts of the payloads and of the ledger are strings of code units below 256. Such
  a description goes to \<^verbatim>\<open>extractStoryFilePath\<close> as its code units, and the path found,
  which is a piece of the description, comes back as a string.
\<close>

definition story_path_of :: "string option \<Rightarrow> string option" where
  "story_path_of description =
     map_option (map char_of) (extractStoryFilePath (map_option units description))"

text \<open>
  The words of the specification: a story path is a token that begins with the root
  segment, ends in the document extension and has at least one class character between
  them; \<open>starts_path s\<close> says that such a token begins \<open>s\<close>; \<open>root_free pre\<close> that no
  occurrence of the root segment begins inside \<open>pre\<close>, whatever follows it; and
  \<open>ext_free after\<close> that the document extension occurs nowhere in the run of class
  characters with which \<open>after\<close> begins.
\<close>

definition is_story_path :: "nat list \<Rightarrow> bool" where
  "is_story_path p =
     (\<exists>body. p = STORY_ROOT @ body @ STORY_EXT \<and> body \<noteq> [] \<and> list_all path_char body)"

definition starts_path :: "nat list \<Rightarrow> bool" where
  "starts_path s = (\<exists>p rest. s = p @ rest \<and> is_story_path p)"

definition root_free :: "nat list \<Rightarrow> bool" where
  "root_free pre = list_all (\<lambda>i. \<not> prefix STORY_ROOT (drop i (pre @ STORY_ROOT))) [0..<length pre]"

definition ext_free :: "nat list \<Rightarrow> bool" where
  "ext_free after =
     list_all (\<lambda>i. \<not> prefix STORY_EXT (drop i after))
       [0..<Suc (length (takeWhile path_char after))]"

section \<open>The plugin: configuration, world and dispatch\<close>

definition IN_DEV_STATE_ID :: string where
  "IN_DEV_STATE_ID = ''99a123f5-1bda-48b0-b0b2-38246e2a50d2''"

text \<open>
  \<^verbatim>\<open>STATE_MAP[newStateId]\<close> is a property lookup on a plain object: besides the three
  labels it finds, under their names, the properties that every object inherits from
  \<^verbatim>\<open>Object.prototype\<close>, none of which is \<^verbatim>\<open>null\<close> or \<^verbatim>\<open>undefined\<close>.
\<close>

datatype Label = Label string | Inherited string

definition Object_prototype_keys :: "string list" where
  "Object_prototype_keys =
     [''constructor'', ''__defineGetter__'', ''__defineSetter__'', ''hasOwnProperty'',
      ''__lookupGetter__'', ''__lookupSetter__'', ''isPrototypeOf'',
      ''propertyIsEnumerable'', ''toString'', ''valueOf'', ''__proto__'',
      ''toLocaleString'']"

definition STATE_MAP :: "string \<Rightarrow> Label option" where
  "STATE_MAP k =
     (if k = ''99a123f5-1bda-48b0-b0b2-38246e2a50d2'' then Some (Label ''ready for dev'')
      else if k = ''83a9ff51-748f-4242-96d7-2df175e6c2bb'' then Some (Label ''completed'')
      else if k = ''b26e9e94-919c-45a3-a62f-4ec89d234e8c'' then Some (Label ''ready for QA'')
      else if k \<in> set Object_prototype_keys then Some (Inherited k)
      else None)"

record Config =
  webhookSecret :: string
  teamId :: string
  logEvents :: bool

text \<open>
  A request: its method, its body as \<^verbatim>\<open>parseBody\<close> returns it, and the header
  \<^verbatim>\<open>x-linear-signature\<close> (\<open>None\<close> when the request has none).
\<close>

record Request =
  req_method :: string
  req_body :: string
  req_signature :: "string option"

text \<open>The object \<^verbatim>\<open>logEvent\<close> appends to the event log, with \<^verbatim>\<open>loggedAt\<close>.\<close>

record StateChangeEvent =
  ev_issueId :: string
  ev_issueTitle :: string
  ev_fromStateId :: "string option"
  ev_toStateId :: "string option"
  ev_label :: Label
  ev_teamId :: "string option"
  ev_loggedAt :: string

text \<open>
  The calls to \<^verbatim>\<open>api.logger\<close>, one constructor for each message of the source, with
  the values the message interpolates; \<open>InfoStateChanged\<close> has the issue id, the label
  and the new state, of which the message prints \<^verbatim>\<open>label ?? newStateId\<close>.
\<close>

datatype LogLine =
    WarnInvalidSignature
  | InfoStateChanged string "Label option" "string option"
  | InfoTriggerWritten string Source
  | InfoTriggerDeduped string
  | InfoSpawnSucceeded string Source
  | InfoSpawnUnavailable string Source string
  | ErrorProcessing error

record SpawnArgs =
  task :: string
  label :: string
  model :: string
  mode :: string

text \<open>
  \<^verbatim>\<open>api.sessions\<close> is \<open>None\<close> when the host has no such capability (then
  \<^verbatim>\<open>sessions?.spawn(...)\<close> is \<^verbatim>\<open>undefined\<close> and nothing is called). Otherwise the
  awaited call throws (or rejects) with a message, or resolves to a value, of which the
  source reads the truthiness only. A call of a \<^verbatim>\<open>spawn\<close> that is not a function, and
  a truthy result that \<^verbatim>\<open>JSON.stringify\<close> cannot print for the message of the success,
  throw inside the same \<^verbatim>\<open>try\<close>: they are cases of \<open>SpawnThrows\<close>.
\<close>

datatype SpawnOutcome = SpawnThrows string | SpawnResolves bool

type_synonym Sessions = "(SpawnArgs \<Rightarrow> SpawnOutcome) option"

text \<open>
  What a handler can change: the ledger file, the event log, the logger's output, the
  calls made to \<^verbatim>\<open>spawn\<close>, and the number of clock readings made so far. The
  operations of the file system themselves are taken to succeed.
\<close>

record World =
  triggerFile :: "string option"
  eventLog :: "StateChangeEvent list"
  logged :: "LogLine list"
  spawnCalls :: "SpawnArgs list"
  clock :: nat

definition log_line :: "LogLine \<Rightarrow> World \<Rightarrow> World" where
  "log_line l w = w\<lparr>logged := logged w @ [l]\<rparr>"

text \<open>\<^verbatim>\<open>new Date().toISOString()\<close>: the text of the next clock reading.\<close>

definition read_clock :: "Platform \<Rightarrow> World \<Rightarrow> string \<times> World" where
  "read_clock P w = (toISOString P (clock w), w\<lparr>clock := Suc (clock w)\<rparr>)"

text \<open>The operator \<^verbatim>\<open>??\<close> and the truthiness of an optional string.\<close>

definition or_else :: "'a option \<Rightarrow> 'a option \<Rightarrow> 'a option" where
  "or_else a b = (case a of Some v \<Rightarrow> Some v | None \<Rightarrow> b)"

definition truthy :: "string option \<Rightarrow> bool" where
  "truthy v = (case v of None \<Rightarrow> False | Some s \<Rightarrow> s \<noteq> [])"

definition spawn_args :: "string \<Rightarrow> string \<Rightarrow> string option \<Rightarrow> SpawnArgs" where
  "spawn_args iid title path =
     \<lparr> task = ''Implement '' @ iid @ '': '' @ title @ ''. Story file: '' @
              (case path of
                 None \<Rightarrow> ''not found - check _bmad-output/stories/cruzbot/''
               | Some p \<Rightarrow> p) @
              ''. Follow Canon workflow. Read story file first.'',
       label = ''dev-'' @ iid,
       model = ''anthropic/claude-sonnet-4-6'',
       mode = ''run'' \<rparr>"

text \<open>
  The direct spawn attempt, \<^verbatim>\<open>try { ... await sessions?.spawn(...) ... } catch\<close>:
  an exception is logged at level info and goes no further.
\<close>

definition direct_spawn ::
  "Sessions \<Rightarrow> Source \<Rightarrow> string \<Rightarrow> string \<Rightarrow> string option \<Rightarrow> World \<Rightarrow> World" where
  "direct_spawn sessions src iid title path w =
     (case sessions of
        None \<Rightarrow> w
      | Some spawn \<Rightarrow>
          (let args = spawn_args iid title path;
               w1 = w\<lparr>spawnCalls := spawnCalls w @ [args]\<rparr>
           in case spawn args of
                SpawnThrows msg \<Rightarrow> log_line (InfoSpawnUnavailable iid src msg) w1
              | SpawnResolves spawnResult \<Rightarrow>
                  if spawnResult then log_line (InfoSpawnSucceeded iid src) w1 else w1))"

section \<open>The webhook endpoint\<close>

definition logEvent :: "Platform \<Rightarrow> StateChangeEvent \<Rightarrow> World \<Rightarrow> World" where
  "logEvent P ev w =
     (let (now, w1) = read_clock P w
      in w1\<lparr>eventLog := eventLog w1 @ [ev\<lparr>ev_loggedAt := now\<rparr>]\<rparr>)"

text \<open>
  The three filters of the handler, in the order of the source: the type and the action,
  the previous state, the team.
\<close>

definition passes_filters :: "Config \<Rightarrow> Payload \<Rightarrow> bool" where
  "passes_filters cfg payload =
     (if payload_type payload \<noteq> Some ''Issue'' \<or> payload_action payload \<noteq> Some ''update''
      then False
      else if \<not> truthy (Option.bind (payload_updatedFrom payload) from_stateId) then False
      else if teamId cfg \<noteq> [] \<and>
              Option.bind (payload_data payload) data_teamId \<noteq> Some (teamId cfg) then False
      else True)"

text \<open>
  The words of the specification for the admission of a push payload: the type and the
  action, the previous state, and the team where a team is configured.
\<close>

definition admission_rules :: "Config \<Rightarrow> Payload \<Rightarrow> bool" where
  "admission_rules cfg payload =
     ((payload_type payload = Some ''Issue'' \<and> payload_action payload = Some ''update'') \<and>
      truthy (Option.bind (payload_updatedFrom payload) from_stateId) \<and>
      (teamId cfg \<noteq> [] \<longrightarrow>
         Option.bind (payload_data payload) data_teamId = Some (teamId cfg)))"

definition webhook_issueId :: "Payload \<Rightarrow> string" where
  "webhook_issueId payload =
     (let d = payload_data payload
      in case or_else (Option.bind d data_identifier) (Option.bind d data_id) of
           Some v \<Rightarrow> v
         | None \<Rightarrow> ''unknown'')"

definition webhook_newStateId :: "Payload \<Rightarrow> string option" where
  "webhook_newStateId payload =
     (let d = payload_data payload
      in or_else (Option.bind d data_stateId)
           (Option.bind (Option.bind d data_state) state_id))"

definition webhook_issueTitle :: "Payload \<Rightarrow> string" where
  "webhook_issueTitle payload =
     (case Option.bind (payload_data payload) data_title of Some t \<Rightarrow> t | None \<Rightarrow> [])"

definition webhook_storyFilePath :: "Payload \<Rightarrow> string option" where
  "webhook_storyFilePath payload =
     story_path_of (Option.bind (payload_data payload) data_description)"

text \<open>
  The message \<^verbatim>\<open>state changed\<close> of the logger and, when \<^verbatim>\<open>cfg.logEvents\<close> is set, the
  entry of the event log.
\<close>

definition state_change_event :: "Payload \<Rightarrow> StateChangeEvent" where
  "state_change_event payload =
     (let newStateId = webhook_newStateId payload;
          lbl = Option.bind newStateId STATE_MAP
      in \<lparr> ev_issueId = webhook_issueId payload,
           ev_issueTitle = webhook_issueTitle payload,
           ev_fromStateId = Option.bind (payload_updatedFrom payload) from_stateId,
           ev_toStateId = newStateId,
           ev_label = (case lbl of Some l \<Rightarrow> l | None \<Rightarrow> Label ''other''),
           ev_teamId = Option.bind (payload_data payload) data_teamId,
           ev_loggedAt = [] \<rparr>)"

definition report_state_change :: "Platform \<Rightarrow> Config \<Rightarrow> Payload \<Rightarrow> World \<Rightarrow> World" where
  "report_state_change P cfg payload w =
     (let newStateId = webhook_newStateId payload;
          lbl = Option.bind newStateId STATE_MAP;
          w1 = log_line (InfoStateChanged (webhook_issueId payload) lbl newStateId) w
      in if logEvents cfg then logEvent P (state_change_event payload) w1 else w1)"

text \<open>
  The block \<^verbatim>\<open>if (newStateId === IN_DEV_STATE_ID) { ... }\<close>: the trigger entry, the
  call of \<^verbatim>\<open>writeTrigger\<close>, the message of its result, and the direct spawn attempt,
  which the source makes whether or not the trigger was written.
\<close>

definition webhook_entry :: "Payload \<Rightarrow> string \<Rightarrow> TriggerInput" where
  "webhook_entry payload now =
     \<lparr> issueId = webhook_issueId payload, issueTitle = webhook_issueTitle payload,
       stateId = IN_DEV_STATE_ID, triggeredAt = now, source = webhook,
       storyFilePath = webhook_storyFilePath payload \<rparr>"

definition trigger_in_dev :: "Platform \<Rightarrow> Sessions \<Rightarrow> Payload \<Rightarrow> World \<Rightarrow> World" where
  "trigger_in_dev P sessions payload w =
     (let (now, w1) = read_clock P w
      in case writeTrigger P (triggerFile w1) (webhook_entry payload now) of
           Inl err \<Rightarrow> log_line (ErrorProcessing err) w1
         | Inr (written, led) \<Rightarrow>
             (let iid = webhook_issueId payload;
                  w2 = log_line
                         (if written then InfoTriggerWritten iid webhook
                          else InfoTriggerDeduped iid)
                         (w1\<lparr>triggerFile := led\<rparr>)
              in direct_spawn sessions webhook iid (webhook_issueTitle payload)
                   (webhook_storyFilePath payload) w2))"

text \<open>
  The body of the \<^verbatim>\<open>try\<close> block after the response was sent. An exception, of
  \<^verbatim>\<open>JSON.parse\<close> or of \<^verbatim>\<open>writeTrigger\<close>, ends the block and is logged as an error; what
  was done before it stays done.
\<close>

definition process_payload :: "Platform \<Rightarrow> Config \<Rightarrow> Sessions \<Rightarrow> string \<Rightarrow> World \<Rightarrow> World" where
  "process_payload P cfg sessions rawBody w =
     (case JSON_parse_payload P rawBody of
        Inl err \<Rightarrow> log_line (ErrorProcessing err) w
      | Inr payload \<Rightarrow>
          if \<not> passes_filters cfg payload then w
          else
            (let w1 = report_state_change P cfg payload w
             in if webhook_newStateId payload = Some IN_DEV_STATE_ID
                then trigger_in_dev P sessions payload w1
                else w1))"

text \<open>The handler of \<^verbatim>\<open>/webhooks/linear\<close>: the status of the response and the world.\<close>

definition webhook_handler ::
  "Platform \<Rightarrow> Config \<Rightarrow> Sessions \<Rightarrow> Request \<Rightarrow> World \<Rightarrow> nat \<times> World" where
  "webhook_handler P cfg sessions req w =
     (if req_method req \<noteq> ''POST'' then (405, w)
      else
        (let rawBody = req_body req;
             signature = (case req_signature req of Some s \<Rightarrow> s | None \<Rightarrow> [])
         in if webhookSecret cfg \<noteq> [] \<and>
               \<not> verifySignature P rawBody signature (webhookSecret cfg)
            then (401, log_line WarnInvalidSignature w)
            else (200, process_payload P cfg sessions rawBody w)))"

section \<open>The poll command\<close>

text \<open>A node of the query's result.\<close>

record IssueNode =
  node_identifier :: string
  node_title :: string
  node_description :: "string option"
  node_state :: "StateRef option"

datatype PollReply =
    NoTeamConfigured
  | NoIssuesFound
  | Summary "IssueNode list" nat
  | PollFailed error

definition poll_entry :: "IssueNode \<Rightarrow> string \<Rightarrow> TriggerInput" where
  "poll_entry issue now =
     \<lparr> issueId = node_identifier issue, issueTitle = node_title issue,
       stateId = IN_DEV_STATE_ID, triggeredAt = now, source = poll,
       storyFilePath = story_path_of (node_description issue) \<rparr>"

text \<open>
  The loop \<^verbatim>\<open>for (const issue of issues)\<close> with its counter \<^verbatim>\<open>triggeredCount\<close>; here
  the direct spawn is attempted only when the trigger was written. An exception of
  \<^verbatim>\<open>writeTrigger\<close> leaves the loop for the \<^verbatim>\<open>catch\<close> of the handler.
\<close>

fun poll_loop ::
  "Platform \<Rightarrow> Sessions \<Rightarrow> IssueNode list \<Rightarrow> nat \<Rightarrow> World \<Rightarrow> (error + nat) \<times> World" where
  "poll_loop P sessions [] triggeredCount w = (Inr triggeredCount, w)"
| "poll_loop P sessions (issue # rest) triggeredCount w =
     (if Option.bind (node_state issue) state_id = Some IN_DEV_STATE_ID
      then
        (let (now, w1) = read_clock P w
         in case writeTrigger P (triggerFile w1) (poll_entry issue now) of
              Inl err \<Rightarrow> (Inl err, w1)
            | Inr (written, led) \<Rightarrow>
                if written
                then
                  (let w2 = log_line (InfoTriggerWritten (node_identifier issue) poll)
                              (w1\<lparr>triggerFile := led\<rparr>);
                       w3 = direct_spawn sessions poll (node_identifier issue)
                              (node_title issue)
                              (story_path_of (node_description issue)) w2
                   in poll_loop P sessions rest (Suc triggeredCount) w3)
                else poll_loop P sessions rest triggeredCount (w1\<lparr>triggerFile := led\<rparr>))
      else poll_loop P sessions rest triggeredCount w)"

text \<open>
  The handler of \<^verbatim>\<open>/linear-poll\<close>; \<open>fetched\<close> is the outcome of the query:
  the exception it was rejected with, or the nodes of
  \<^verbatim>\<open>result?.data?.issues?.nodes ?? []\<close>.
\<close>

definition linear_poll ::
  "Platform \<Rightarrow> Config \<Rightarrow> Sessions \<Rightarrow> error + IssueNode list \<Rightarrow> World \<Rightarrow> PollReply \<times> World" where
  "linear_poll P cfg sessions fetched w =
     (if teamId cfg = [] then (NoTeamConfigured, w)
      else case fetched of
             Inl err \<Rightarrow> (PollFailed err, w)
           | Inr issues \<Rightarrow>
               if issues = [] then (NoIssuesFound, w)
               else (case poll_loop P sessions issues 0 w of
                       (Inl err, w') \<Rightarrow> (PollFailed err, w')
                     | (Inr triggeredCount, w') \<Rightarrow> (Summary issues triggeredCount, w')))"

section \<open>A sample platform\<close>

text \<open>
  The closed examples below run on this platform. \<open>sample_stringify\<close> is
  \<^verbatim>\<open>JSON.stringify\<close> on an entry whose strings need no escaping; \<open>sample_parse\<close> is
  \<^verbatim>\<open>JSON.parse\<close> tabulated on the lines of the sample entries, and
  \<open>sample_parse_payload\<close> on the sample request bodies (every other text counts as not
  JSON, which is what the one other text of the examples, \<^verbatim>\<open>{not json\<close>, is);
  \<open>sample_hmac\<close> is HMAC-SHA256 tabulated at the sample secret, on the sample body and on
  that body followed by \<^verbatim>\<open>extra\<close>; the sample clock stands still.
\<close>

definition DQ :: char where
  "DQ = CHR 0x22"

definition json_string :: "string \<Rightarrow> string" where
  "json_string s = DQ # s @ [DQ]"

definition json_field :: "string \<Rightarrow> string \<Rightarrow> string" where
  "json_field k v = json_string k @ '':'' @ v"

definition sample_stringify :: "TriggerEntry \<Rightarrow> string" where
  "sample_stringify e =
     ''{'' @ json_field ''issueId'' (json_string (issueId e)) @
     '','' @ json_field ''issueTitle'' (json_string (issueTitle e)) @
     '','' @ json_field ''stateId'' (json_string (stateId e)) @
     '','' @ json_field ''triggeredAt'' (json_string (triggeredAt e)) @
     '','' @ json_field ''source''
              (json_string (case source e of webhook \<Rightarrow> ''webhook'' | poll \<Rightarrow> ''poll'')) @
     '','' @ json_field ''storyFilePath''
              (case storyFilePath e of None \<Rightarrow> ''null'' | Some p \<Rightarrow> json_string p) @
     '','' @ json_field ''status''
              (json_string (case status e of pending \<Rightarrow> ''pending''
                            | spawned \<Rightarrow> ''spawned'' | skipped \<Rightarrow> ''skipped'')) @
     ''}''"

definition sample_time :: string where
  "sample_time = ''2026-01-01T00:00:00.000Z''"

definition sample_input :: "string \<Rightarrow> Source \<Rightarrow> TriggerInput" where
  "sample_input i src =
     \<lparr> issueId = i, issueTitle = ''Test issue'', stateId = IN_DEV_STATE_ID,
       triggeredAt = sample_time, source = src, storyFilePath = None \<rparr>"

definition unknown_input :: TriggerInput where
  "unknown_input = (sample_input ''unknown'' webhook)\<lparr>issueTitle := ''No identifier''\<rparr>"

definition sample_entries :: "TriggerEntry list" where
  "sample_entries =
     [fullEntry (sample_input ''CRU-123'' webhook),
      fullEntry (sample_input ''CRU-123'' poll),
      fullEntry (sample_input ''CRU-456'' webhook),
      fullEntry (sample_input ''CRU-456'' poll),
      (fullEntry (sample_input ''CRU-123'' webhook))\<lparr>status := skipped\<rparr>,
      (fullEntry (sample_input ''CRU-123'' poll))\<lparr>status := skipped\<rparr>,
      fullEntry unknown_input]"

definition sample_parse :: "string \<Rightarrow> TriggerEntry option" where
  "sample_parse l = find (\<lambda>e. sample_stringify e = l) sample_entries"

definition push_body :: "string \<Rightarrow> string" where
  "push_body dataFields =
     ''{'' @ json_field ''type'' (json_string ''Issue'') @
     '','' @ json_field ''action'' (json_string ''update'') @
     '','' @ json_field ''data'' (''{'' @ dataFields @ ''}'') @
     '','' @ json_field ''updatedFrom''
              (''{'' @ json_field ''stateId''
                        (json_string ''83a9ff51-748f-4242-96d7-2df175e6c2bb'') @ ''}'') @
     ''}''"

definition sample_body :: string where
  "sample_body =
     push_body (json_field ''identifier'' (json_string ''CRU-123'') @
                '','' @ json_field ''title'' (json_string ''Test issue'') @
                '','' @ json_field ''stateId'' (json_string IN_DEV_STATE_ID))"

definition anonymous_body :: string where
  "anonymous_body =
     push_body (json_field ''title'' (json_string ''No identifier'') @
                '','' @ json_field ''stateId'' (json_string IN_DEV_STATE_ID))"

definition other_anonymous_body :: string where
  "other_anonymous_body =
     push_body (json_field ''title'' (json_string ''Another item'') @
                '','' @ json_field ''stateId'' (json_string IN_DEV_STATE_ID))"

definition push_payload :: "string option \<Rightarrow> string \<Rightarrow> Payload" where
  "push_payload ident title =
     \<lparr> payload_type = Some ''Issue'', payload_action = Some ''update'',
       payload_data =
         Some \<lparr> data_identifier = ident, data_id = None, data_title = Some title,
                data_description = None, data_teamId = None,
                data_stateId = Some IN_DEV_STATE_ID, data_state = None \<rparr>,
       payload_updatedFrom =
         Some \<lparr> from_stateId = Some ''83a9ff51-748f-4242-96d7-2df175e6c2bb'' \<rparr> \<rparr>"

definition sample_parse_payload :: "string \<Rightarrow> error + Payload" where
  "sample_parse_payload b =
     (if b = sample_body then Inr (push_payload (Some ''CRU-123'') ''Test issue'')
      else if b = anonymous_body then Inr (push_payload None ''No identifier'')
      else if b = other_anonymous_body then Inr (push_payload None ''Another item'')
      else Inl (SyntaxError b))"

definition sample_secret :: string where
  "sample_secret = ''test-webhook-secret-abc123''"

definition sample_hmac :: "string \<Rightarrow> string \<Rightarrow> string" where
  "sample_hmac secret body =
     (if secret = sample_secret \<and> body = sample_body
      then ''ee941c4713f4ad13e1ec0f7384d0b69390a7c8a8a56ebcb5480db07d529ff651''
      else if secret = sample_secret \<and> body = sample_body @ ''extra''
      then ''f2d746b4b42fc7c30f3191461e091070d71c4be42cc6adfcbcce43e84dd9e0c1''
      else replicate 64 CHR ''0'')"

definition sample_platform :: Platform where
  "sample_platform =
     \<lparr> JSON_parse = sample_parse, JSON_stringify = sample_stringify,
       JSON_parse_payload = sample_parse_payload,
       createHmac_sha256_hex = sample_hmac, toISOString = (\<lambda>n. sample_time) \<rparr>"

text \<open>A ledger with a corrupt line between two valid ones.\<close>

definition sample_ledger :: string where
  "sample_ledger =
     sample_stringify (fullEntry (sample_input ''CRU-123'' webhook)) @ [LF] @
     ''{not json'' @ [LF] @
     sample_stringify (fullEntry (sample_input ''CRU-456'' webhook)) @ [LF]"

text \<open>A ledger with two skipped records of one work item and a pending record of another.\<close>

definition skipped_ledger :: string where
  "skipped_ledger =
     sample_stringify ((fullEntry (sample_input ''CRU-123'' webhook))\<lparr>status := skipped\<rparr>) @ [LF] @
     sample_stringify ((fullEntry (sample_input ''CRU-123'' poll))\<lparr>status := skipped\<rparr>) @ [LF] @
     sample_stringify (fullEntry (sample_input ''CRU-456'' webhook)) @ [LF]"

definition sample_story_path :: "nat list" where
  "sample_story_path = units ''_bmad-output/stories/cruzbot/epic-1-story-3-test.md''"

definition empty_world :: World where
  "empty_world =
     \<lparr> triggerFile = None, eventLog = [], logged = [], spawnCalls = [], clock = 0 \<rparr>"

text \<open>Configurations, requests, spawn capabilities and poll results of the examples.\<close>

definition open_config :: Config where
  "open_config = \<lparr> webhookSecret = [], teamId = [], logEvents = False \<rparr>"

definition team_config :: Config where
  "team_config = \<lparr> webhookSecret = sample_secret, teamId = ''team-1'', logEvents = True \<rparr>"

definition unsigned_request :: "string \<Rightarrow> Request" where
  "unsigned_request body = \<lparr> req_method = ''POST'', req_body = body, req_signature = None \<rparr>"

definition spawn_succeeds :: "SpawnArgs \<Rightarrow> SpawnOutcome" where
  "spawn_succeeds args = SpawnResolves True"

definition spawn_fails :: "SpawnArgs \<Rightarrow> SpawnOutcome" where
  "spawn_fails args = SpawnThrows ''sessions.spawn is not available''"

definition sample_issue :: "string \<Rightarrow> IssueNode" where
  "sample_issue i =
     \<lparr> node_identifier = i, node_title = ''Test issue'', node_description = None,
       node_state = Some \<lparr> state_id = Some IN_DEV_STATE_ID \<rparr> \<rparr>"

section \<open>Auxiliary notions of the proofs\<close>

text \<open>
  The invariant of a ledger that only \<^verbatim>\<open>writeTrigger\<close> has written: it reads back as
  pending records of pairwise different work items, those of the set \<open>S\<close>.
\<close>

definition ledger_inv :: "Platform \<Rightarrow> string option \<Rightarrow> string set \<Rightarrow> bool" where
  "ledger_inv P led S =
     (ends_clean led \<and>
      (\<exists>recs. readTriggerLog P led = Inr recs \<and> (\<forall>e\<in>set recs. status e = pending) \<and>
         distinct (map issueId recs) \<and> issueId ` set recs = S))"

text \<open>Whether the document extension stands at position \<open>n\<close> of \<open>t\<close>.\<close>

definition ext_at :: "nat list \<Rightarrow> nat \<Rightarrow> nat option" where
  "ext_at t n = (if prefix STORY_EXT (drop n t) then Some 3 else None)"

text \<open>
  Two worlds with the same ledger, event log and clock, and the same error lines in the
  log: they differ at most in the calls to \<^verbatim>\<open>spawn\<close> and in the messages that are
  not errors.
\<close>

definition is_error_line :: "LogLine \<Rightarrow> bool" where
  "is_error_line l = (case l of ErrorProcessing _ \<Rightarrow> True | _ \<Rightarrow> False)"

definition same_ingestion :: "World \<Rightarrow> World \<Rightarrow> bool" where
  "same_ingestion w w' =
     (triggerFile w = triggerFile w' \<and> eventLog w = eventLog w' \<and> clock w = clock w' \<and>
      filter is_error_line (logged w) = filter is_error_line (logged w'))"

text \<open>The ledger after the lines of one entry, or of a list of entries, were appended.\<close>

definition append_pending :: "Platform \<Rightarrow> string option \<Rightarrow> TriggerInput \<Rightarrow> string option" where
  "append_pending P led x = appendFileSync led (JSON_stringify P (fullEntry x) @ [LF])"

definition append_lines :: "Platform \<Rightarrow> string option \<Rightarrow> TriggerEntry list \<Rightarrow> string option" where
  "append_lines P led es = foldl (\<lambda>f e. appendFileSync f (JSON_stringify P e @ [LF])) led es"

section \<open>Properties of the ledger\<close>

lemma split_at_not_Nil: "split_at c xs \<noteq> []"
  by (induction xs) (auto split: list.splits)

lemma split_at_append: "split_at c (xs @ c # ys) = split_at c xs @ split_at c ys"
  by (induction xs) (auto split: list.splits simp: split_at_not_Nil)

lemma split_at_absent: "c \<notin> set xs \<Longrightarrow> split_at c xs = [xs]"
  by (induction xs) auto

lemma file_lines_append: "file_lines (xs @ LF # ys) = file_lines xs @ file_lines ys"
  by (simp add: file_lines_def split_at_append)

lemma file_lines_Nil: "file_lines [] = []"
  by (simp add: file_lines_def)

lemma file_lines_single: "LF \<notin> set s \<Longrightarrow> s \<noteq> [] \<Longrightarrow> file_lines s = [s]"
  by (simp add: file_lines_def split_at_absent)



lemma parse_lines_append:
  "parse_lines P (xs @ ys) =
     (case parse_lines P xs of
        Inl err \<Rightarrow> Inl err
      | Inr a \<Rightarrow> (case parse_lines P ys of Inl err \<Rightarrow> Inl err | Inr b \<Rightarrow> Inr (a @ b)))"
  by (induction xs) (auto split: option.splits sum.splits)

lemma file_lines_snoc_LF: "file_lines (c @ [LF]) = file_lines c"
  using file_lines_append [of c "[]"] by (simp add: file_lines_Nil)

lemma file_lines_add_line:
  assumes "c = [] \<or> last c = LF" and "LF \<notin> set s" and "s \<noteq> []"
  shows "file_lines (c @ s @ [LF]) = file_lines c @ [s]"
proof (cases "c = []")
  case True
  then show ?thesis
    using assms by (simp add: file_lines_snoc_LF file_lines_single file_lines_Nil)
next
  case False
  with assms(1) obtain c' where c: "c = c' @ [LF]"
    by (metis append_butlast_last_id)
  have "file_lines (c' @ LF # (s @ [LF])) = file_lines c' @ file_lines (s @ [LF])"
    by (rule file_lines_append)
  then show ?thesis
    using assms(2,3) by (simp add: c file_lines_snoc_LF file_lines_single)
qed

lemma read_after_append:
  assumes "ends_clean led" and "readTriggerLog P led = Inr recs" and "codec_ok P e"
  shows "readTriggerLog P (appendFileSync led (JSON_stringify P e @ [LF])) = Inr (recs @ [e])"
proof (cases led)
  case None
  then show ?thesis
    using assms file_lines_add_line [of "[]" "JSON_stringify P e"]
    by (simp add: readTriggerLog_def appendFileSync_def codec_ok_def file_lines_Nil)
next
  case (Some c)
  then show ?thesis
    using assms file_lines_add_line [of c "JSON_stringify P e"]
    by (simp add: readTriggerLog_def appendFileSync_def codec_ok_def ends_clean_def
        parse_lines_append)
qed

lemma ends_clean_append: "ends_clean (appendFileSync led (s @ [LF]))"
  by (simp add: ends_clean_def appendFileSync_def split: option.splits)


lemma blocks_pending: "\<forall>e\<in>set recs. status e = pending \<Longrightarrow>
    list_ex (blocks i) recs = (i \<in> issueId ` set recs)"
  by (auto simp: list_ex_iff blocks_def)

lemma fullEntry_simps [simp]:
  "issueId (fullEntry x) = issueId x" "status (fullEntry x) = pending"
  by (simp_all add: fullEntry_def)

lemma writeTrigger_step:
  assumes inv: "ledger_inv P led S" and ok: "codec_ok P (fullEntry x)"
  shows "\<exists>led'. writeTrigger P led x = Inr (issueId x \<notin> S, led') \<and>
           ledger_inv P led' (insert (issueId x) S)"
proof -
  from inv obtain recs where clean: "ends_clean led"
    and rd: "readTriggerLog P led = Inr recs"
    and pend: "\<forall>e\<in>set recs. status e = pending"
    and dist: "distinct (map issueId recs)"
    and ids: "issueId ` set recs = S"
    by (auto simp: ledger_inv_def)
  have ex: "list_ex (blocks (issueId x)) recs = (issueId x \<in> S)"
    using blocks_pending [OF pend] ids by simp
  show ?thesis
  proof (cases "issueId x \<in> S")
    case True
    then have "writeTrigger P led x = Inr (False, led)"
      using rd ex by (simp add: writeTrigger_def)
    moreover have "insert (issueId x) S = S" using True by auto
    ultimately show ?thesis using inv True by auto
  next
    case False
    let ?f = "appendFileSync led (JSON_stringify P (fullEntry x) @ [LF])"
    have w: "writeTrigger P led x = Inr (True, ?f)"
      using rd ex False by (simp add: writeTrigger_def)
    have rd': "readTriggerLog P ?f = Inr (recs @ [fullEntry x])"
      by (rule read_after_append [OF clean rd ok])
    have "ledger_inv P ?f (insert (issueId x) S)"
      unfolding ledger_inv_def
      using rd' pend dist ids False ends_clean_append [of led "JSON_stringify P (fullEntry x)"]
      by auto
    then show ?thesis using w False by auto
  qed
qed

lemma admit_all_inv:
  assumes "ledger_inv P led S" and "\<forall>x\<in>set xs. codec_ok P (fullEntry x)"
  shows "\<exists>flags led'. admit_all P led xs = Inr (flags, led') \<and>
           ledger_inv P led' (S \<union> issueId ` set xs) \<and> length flags = length xs \<and>
           (\<forall>k<length xs. flags ! k = (issueId (xs ! k) \<notin> S \<union> issueId ` set (take k xs)))"
  using assms
proof (induction xs arbitrary: led S)
  case Nil
  then show ?case by simp
next
  case (Cons x xs)
  from writeTrigger_step [OF Cons.prems(1), of x] Cons.prems(2)
  obtain f1 where w: "writeTrigger P led x = Inr (issueId x \<notin> S, f1)"
    and inv1: "ledger_inv P f1 (insert (issueId x) S)"
    by auto
  from Cons.IH [OF inv1] Cons.prems(2)
  obtain flags f2 where a: "admit_all P f1 xs = Inr (flags, f2)"
    and inv2: "ledger_inv P f2 (insert (issueId x) S \<union> issueId ` set xs)"
    and len: "length flags = length xs"
    and fl: "\<forall>k<length xs. flags ! k =
               (issueId (xs ! k) \<notin> insert (issueId x) S \<union> issueId ` set (take k xs))"
    by auto
  have "admit_all P led (x # xs) = Inr ((issueId x \<notin> S) # flags, f2)"
    using w a by simp
  moreover have "ledger_inv P f2 (S \<union> issueId ` set (x # xs))"
    using inv2 by (simp add: Un_commute insert_commute)
  moreover have "\<forall>k<length (x # xs). ((issueId x \<notin> S) # flags) ! k =
      (issueId ((x # xs) ! k) \<notin> S \<union> issueId ` set (take k (x # xs)))"
  proof (intro allI impI)
    fix k assume "k < length (x # xs)"
    then show "((issueId x \<notin> S) # flags) ! k =
      (issueId ((x # xs) ! k) \<notin> S \<union> issueId ` set (take k (x # xs)))"
      using fl by (cases k) auto
  qed
  ultimately show ?case using len by auto
qed

lemma count_distinct_key:
  "distinct (map f xs) \<Longrightarrow> length (filter (\<lambda>e. f e = i) xs) = (if i \<in> f ` set xs then 1 else 0)"
  by (induction xs) auto

lemma ledger_inv_count:
  assumes "ledger_inv P led S" and "readTriggerLog P led = Inr recs"
  shows "length (filter (blocks i) recs) = (if i \<in> S then 1 else 0)"
proof -
  from assms have pend: "\<forall>e\<in>set recs. status e = pending"
    and dist: "distinct (map issueId recs)" and ids: "issueId ` set recs = S"
    by (auto simp: ledger_inv_def)
  have "filter (blocks i) recs = filter (\<lambda>e. issueId e = i) recs"
    using pend by (intro filter_cong) (auto simp: blocks_def)
  then show ?thesis
    using count_distinct_key [OF dist, of i] ids by simp
qed

lemma ledger_inv_empty: "led = None \<or> led = Some [] \<Longrightarrow> ledger_inv P led {}"
  by (auto simp: ledger_inv_def ends_clean_def readTriggerLog_def file_lines_Nil)

lemma writeTrigger_blocked:
  "readTriggerLog P led = Inr recs \<Longrightarrow> list_ex (blocks (issueId x)) recs \<Longrightarrow>
     writeTrigger P led x = Inr (False, led)"
  by (simp add: writeTrigger_def)

text \<open>
  Claim C1. Starting from an absent or empty ledger, after any number \<open>n\<close> of the
  admission attempts \<open>xs\<close> (from either source, with repetitions), the ledger reads back
  and has exactly one record with status pending or spawned for every work item
  attempted so far and none for any other; the \<open>k\<close>-th attempt returns true exactly when
  its work item was not attempted before; and an attempt for a work item that has a
  pending or spawned record returns false and leaves the file as it is.
\<close>

theorem dedup_at_most_one_active:
  assumes "\<forall>x\<in>set xs. codec_ok P (fullEntry x)" and "file0 = None \<or> file0 = Some []"
  shows "\<exists>flags led recs.
      admit_all P file0 (take n xs) = Inr (flags, led) \<and>
      readTriggerLog P led = Inr recs \<and>
      (\<forall>i. length (filter (blocks i) recs) = (if i \<in> issueId ` set (take n xs) then 1 else 0)) \<and>
      length flags = length (take n xs) \<and>
      (\<forall>k<length (take n xs). flags ! k = (issueId (xs ! k) \<notin> issueId ` set (take k xs))) \<and>
      (\<forall>x. list_ex (blocks (issueId x)) recs \<longrightarrow> writeTrigger P led x = Inr (False, led))"
proof -
  have ok: "\<forall>x\<in>set (take n xs). codec_ok P (fullEntry x)"
    using assms(1) by (meson in_set_takeD)
  from admit_all_inv [OF ledger_inv_empty [OF assms(2)] ok]
  obtain flags led where a: "admit_all P file0 (take n xs) = Inr (flags, led)"
    and inv: "ledger_inv P led ({} \<union> issueId ` set (take n xs))"
    and len: "length flags = length (take n xs)"
    and fl: "\<forall>k<length (take n xs). flags ! k =
        (issueId (take n xs ! k) \<notin> {} \<union> issueId ` set (take k (take n xs)))"
    by blast
  from inv obtain recs where rd: "readTriggerLog P led = Inr recs"
    by (auto simp: ledger_inv_def)
  have cnt: "\<forall>i. length (filter (blocks i) recs) = (if i \<in> issueId ` set (take n xs) then 1 else 0)"
    using ledger_inv_count [OF inv rd] by simp
  have fl': "\<forall>k<length (take n xs). flags ! k = (issueId (xs ! k) \<notin> issueId ` set (take k xs))"
    using fl by (simp add: min_def)
  have blk: "\<forall>x. list_ex (blocks (issueId x)) recs \<longrightarrow> writeTrigger P led x = Inr (False, led)"
    using writeTrigger_blocked [OF rd] by blast
  show ?thesis using a rd cnt len fl' blk by blast
qed


lemma sample_codec_1: "codec_ok sample_platform (fullEntry (sample_input ''CRU-123'' webhook))"
  by code_simp

lemma sample_codec_2: "codec_ok sample_platform (fullEntry (sample_input ''CRU-123'' poll))"
  by code_simp

lemma sample_codec_3: "codec_ok sample_platform (fullEntry (sample_input ''CRU-456'' webhook))"
  by code_simp

theorem dedup_at_most_one_active_witness:
  "\<exists>flags led recs.
     admit_all sample_platform None
       [sample_input ''CRU-123'' webhook, sample_input ''CRU-123'' poll,
        sample_input ''CRU-456'' webhook] = Inr (flags, led) \<and>
     readTriggerLog sample_platform led = Inr recs \<and>
     length flags = 3 \<and> flags ! 0 = True \<and> flags ! 1 = False \<and> flags ! 2 = True \<and>
     length (filter (blocks ''CRU-123'') recs) = 1 \<and>
     length (filter (blocks ''CRU-456'') recs) = 1 \<and>
     length (filter (blocks ''CRU-789'') recs) = 0"
proof -
  let ?xs = "[sample_input ''CRU-123'' webhook, sample_input ''CRU-123'' poll,
        sample_input ''CRU-456'' webhook]"
  have ok: "\<forall>x\<in>set ?xs. codec_ok sample_platform (fullEntry x)"
    using sample_codec_1 sample_codec_2 sample_codec_3 by simp
  from dedup_at_most_one_active [OF ok, of None 3]
  obtain flags led recs where
    a: "admit_all sample_platform None ?xs = Inr (flags, led)"
    and r: "readTriggerLog sample_platform led = Inr recs"
    and c: "\<forall>i. length (filter (blocks i) recs) = (if i \<in> issueId ` set ?xs then 1 else 0)"
    and l: "length flags = 3"
    and f: "\<forall>k<3. flags ! k = (issueId (?xs ! k) \<notin> issueId ` set (take k ?xs))"
    by auto
  have "flags ! 0 = True" "flags ! 1 = False" "flags ! 2 = True"
    using f by (simp_all add: sample_input_def take_Suc_conv_app_nth numeral_2_eq_2)
  moreover have "length (filter (blocks ''CRU-123'') recs) = 1"
    "length (filter (blocks ''CRU-456'') recs) = 1"
    "length (filter (blocks ''CRU-789'') recs) = 0"
    using c by (simp_all add: sample_input_def)
  ultimately show ?thesis using a r l by blast
qed

text \<open>
  Claim C2, as stated, fails: on a ledger with one corrupt line between two valid lines
  \<^verbatim>\<open>readTriggerLog\<close> throws the \<^verbatim>\<open>SyntaxError\<close> of \<^verbatim>\<open>JSON.parse\<close> and returns no
  record.
\<close>

theorem malformed_line_counterexample:
  "JSON_parse sample_platform ''{not json'' = None \<and>
   readTriggerLog sample_platform (Some sample_ledger) = Inl (SyntaxError ''{not json'') \<and>
   readTriggerLog sample_platform (Some sample_ledger) \<noteq>
     Inr [fullEntry (sample_input ''CRU-123'' webhook), fullEntry (sample_input ''CRU-456'' webhook)]"
  by code_simp

text \<open>
  Claim C2, amended. \<^verbatim>\<open>readTriggerLog\<close> returns the empty list for a file that does not
  exist; for a file whose non-empty lines all parse it returns their records in file
  order; and when some non-empty line does not parse it throws the exception of the
  first such line.
\<close>

theorem readTriggerLog_all_or_error:
  "readTriggerLog P None = Inr [] \<and>
   readTriggerLog P (Some content) =
     (case find (\<lambda>l. JSON_parse P l = None) (file_lines content) of
        Some l \<Rightarrow> Inl (SyntaxError l)
      | None \<Rightarrow> Inr (map (\<lambda>l. the (JSON_parse P l)) (file_lines content)))"
proof -
  have "parse_lines P ls =
     (case find (\<lambda>l. JSON_parse P l = None) ls of
        Some l \<Rightarrow> Inl (SyntaxError l)
      | None \<Rightarrow> Inr (map (\<lambda>l. the (JSON_parse P l)) ls))" for ls
    by (induction ls) (auto split: option.splits)
  then show ?thesis by (simp add: readTriggerLog_def)
qed

theorem readTriggerLog_all_or_error_witness:
  "readTriggerLog sample_platform (Some skipped_ledger) =
     Inr [(fullEntry (sample_input ''CRU-123'' webhook))\<lparr>status := skipped\<rparr>,
          (fullEntry (sample_input ''CRU-123'' poll))\<lparr>status := skipped\<rparr>,
          fullEntry (sample_input ''CRU-456'' webhook)]"
proof -
  have "find (\<lambda>l. JSON_parse sample_platform l = None) (file_lines skipped_ledger) = None"
    by code_simp
  moreover have "map (\<lambda>l. the (JSON_parse sample_platform l)) (file_lines skipped_ledger) =
     [(fullEntry (sample_input ''CRU-123'' webhook))\<lparr>status := skipped\<rparr>,
          (fullEntry (sample_input ''CRU-123'' poll))\<lparr>status := skipped\<rparr>,
          fullEntry (sample_input ''CRU-456'' webhook)]"
    by code_simp
  ultimately show ?thesis
    using readTriggerLog_all_or_error [of sample_platform skipped_ledger] by simp
qed

text \<open>
  Claim C5. \<^verbatim>\<open>verifySignature\<close> returns true exactly when the secret is not empty, the
  signature is not empty and the signature equals the hex digest of the body under the
  secret; an empty secret and an empty signature give false, and so does a body whose
  digest differs from the signed one. The function is a pure function of its arguments.
\<close>

theorem verifySignature_iff:
  "(verifySignature P body signature secret \<longleftrightarrow>
      secret \<noteq> [] \<and> signature \<noteq> [] \<and> signature = createHmac_sha256_hex P secret body) \<and>
   \<not> verifySignature P body signature [] \<and>
   \<not> verifySignature P body [] secret \<and>
   (createHmac_sha256_hex P secret body' \<noteq> createHmac_sha256_hex P secret body \<longrightarrow>
      \<not> verifySignature P body' (createHmac_sha256_hex P secret body) secret)"
  by (auto simp: verifySignature_def)

theorem verifySignature_iff_witness:
  "verifySignature sample_platform sample_body
     ''ee941c4713f4ad13e1ec0f7384d0b69390a7c8a8a56ebcb5480db07d529ff651'' sample_secret \<and>
   \<not> verifySignature sample_platform (sample_body @ ''extra'')
     ''ee941c4713f4ad13e1ec0f7384d0b69390a7c8a8a56ebcb5480db07d529ff651'' sample_secret \<and>
   \<not> verifySignature sample_platform sample_body
     ''ee941c4713f4ad13e1ec0f7384d0b69390a7c8a8a56ebcb5480db07d529ff651'' [] \<and>
   \<not> verifySignature sample_platform sample_body [] sample_secret"
proof -
  have h1: "createHmac_sha256_hex sample_platform sample_secret sample_body =
      ''ee941c4713f4ad13e1ec0f7384d0b69390a7c8a8a56ebcb5480db07d529ff651''"
    by code_simp
  have h2: "createHmac_sha256_hex sample_platform sample_secret (sample_body @ ''extra'') =
      ''f2d746b4b42fc7c30f3191461e091070d71c4be42cc6adfcbcce43e84dd9e0c1''"
    by code_simp
  have ne: "sample_secret \<noteq> []"
    by (simp add: sample_secret_def)
  show ?thesis
    using verifySignature_iff [of sample_platform sample_body
        "''ee941c4713f4ad13e1ec0f7384d0b69390a7c8a8a56ebcb5480db07d529ff651''"
        sample_secret "sample_body @ ''extra''"] ne
    unfolding h1 h2 by simp
qed

text \<open>
  Claim C6. When the ledger reads back and every record of the work item is skipped
  (however many there are), \<^verbatim>\<open>writeTrigger\<close> returns true and appends the line of a new
  record: the record of the entry it was given, field by field, with status pending. On
  a ledger that ends with a line feed that line reads back as the new last record.
\<close>

theorem rearm_after_skipped:
  assumes "readTriggerLog P led = Inr recs"
    and "\<forall>e\<in>set recs. issueId e = issueId x \<longrightarrow> status e = skipped"
  shows "writeTrigger P led x =
           Inr (True,
             appendFileSync led
               (JSON_stringify P
                  \<lparr> issueId = issueId x, issueTitle = issueTitle x, stateId = stateId x,
                    triggeredAt = triggeredAt x, source = source x,
                    storyFilePath = storyFilePath x, status = pending \<rparr> @ [LF])) \<and>
         (ends_clean led \<and>
          codec_ok P
            \<lparr> issueId = issueId x, issueTitle = issueTitle x, stateId = stateId x,
              triggeredAt = triggeredAt x, source = source x,
              storyFilePath = storyFilePath x, status = pending \<rparr> \<longrightarrow>
            readTriggerLog P
              (appendFileSync led
                 (JSON_stringify P
                    \<lparr> issueId = issueId x, issueTitle = issueTitle x, stateId = stateId x,
                      triggeredAt = triggeredAt x, source = source x,
                      storyFilePath = storyFilePath x, status = pending \<rparr> @ [LF])) =
              Inr (recs @
                [\<lparr> issueId = issueId x, issueTitle = issueTitle x, stateId = stateId x,
                   triggeredAt = triggeredAt x, source = source x,
                   storyFilePath = storyFilePath x, status = pending \<rparr>]))"
proof -
  have "\<not> list_ex (blocks (issueId x)) recs"
    using assms(2) by (auto simp: list_ex_iff blocks_def)
  then have "writeTrigger P led x =
           Inr (True, appendFileSync led (JSON_stringify P (fullEntry x) @ [LF]))"
    using assms(1) by (simp add: writeTrigger_def)
  then show ?thesis
    using read_after_append [OF _ assms(1), of "fullEntry x"]
    by (simp add: fullEntry_def)
qed

theorem rearm_after_skipped_witness:
  "writeTrigger sample_platform (Some skipped_ledger) (sample_input ''CRU-123'' webhook) =
     Inr (True, Some (skipped_ledger @
        sample_stringify
          \<lparr> issueId = ''CRU-123'', issueTitle = ''Test issue'', stateId = IN_DEV_STATE_ID,
            triggeredAt = sample_time, source = webhook, storyFilePath = None,
            status = pending \<rparr> @ [LF])) \<and>
   readTriggerLog sample_platform (Some (skipped_ledger @
        sample_stringify
          \<lparr> issueId = ''CRU-123'', issueTitle = ''Test issue'', stateId = IN_DEV_STATE_ID,
            triggeredAt = sample_time, source = webhook, storyFilePath = None,
            status = pending \<rparr> @ [LF])) =
     Inr [\<lparr> issueId = ''CRU-123'', issueTitle = ''Test issue'', stateId = IN_DEV_STATE_ID,
            triggeredAt = sample_time, source = webhook, storyFilePath = None,
            status = skipped \<rparr>,
          \<lparr> issueId = ''CRU-123'', issueTitle = ''Test issue'', stateId = IN_DEV_STATE_ID,
            triggeredAt = sample_time, source = poll, storyFilePath = None,
            status = skipped \<rparr>,
          \<lparr> issueId = ''CRU-456'', issueTitle = ''Test issue'', stateId = IN_DEV_STATE_ID,
            triggeredAt = sample_time, source = webhook, storyFilePath = None,
            status = pending \<rparr>,
          \<lparr> issueId = ''CRU-123'', issueTitle = ''Test issue'', stateId = IN_DEV_STATE_ID,
            triggeredAt = sample_time, source = webhook, storyFilePath = None,
            status = pending \<rparr>]"
proof -
  let ?recs = "[\<lparr> issueId = ''CRU-123'', issueTitle = ''Test issue'', stateId = IN_DEV_STATE_ID,
            triggeredAt = sample_time, source = webhook, storyFilePath = None,
            status = skipped \<rparr>,
          \<lparr> issueId = ''CRU-123'', issueTitle = ''Test issue'', stateId = IN_DEV_STATE_ID,
            triggeredAt = sample_time, source = poll, storyFilePath = None,
            status = skipped \<rparr>,
          \<lparr> issueId = ''CRU-456'', issueTitle = ''Test issue'', stateId = IN_DEV_STATE_ID,
            triggeredAt = sample_time, source = webhook, storyFilePath = None,
            status = pending \<rparr>]"
  have rd: "readTriggerLog sample_platform (Some skipped_ledger) = Inr ?recs"
    by code_simp
  have sk: "\<forall>e\<in>set ?recs. issueId e = issueId (sample_input ''CRU-123'' webhook) \<longrightarrow>
      status e = skipped"
    by (simp add: sample_input_def)
  have cl: "ends_clean (Some skipped_ledger)"
    by (simp add: ends_clean_def skipped_ledger_def)
  have x: "sample_input ''CRU-123'' webhook =
      \<lparr> issueId = ''CRU-123'', issueTitle = ''Test issue'', stateId = IN_DEV_STATE_ID,
        triggeredAt = sample_time, source = webhook, storyFilePath = None \<rparr>"
    by (simp add: sample_input_def)
  have ok: "codec_ok sample_platform
      \<lparr> issueId = ''CRU-123'', issueTitle = ''Test issue'', stateId = IN_DEV_STATE_ID,
        triggeredAt = sample_time, source = webhook, storyFilePath = None,
        status = pending \<rparr>"
    using sample_codec_1 by (simp add: fullEntry_def x)
  have st: "JSON_stringify sample_platform = sample_stringify"
    by (simp add: sample_platform_def)
  show ?thesis
    using rearm_after_skipped [OF rd sk] cl ok
    by (simp add: appendFileSync_def st x)
qed

section \<open>Properties of the story path extraction\<close>


lemma greedy_None_iff: "greedy k n = None \<longleftrightarrow> (\<forall>j. 1 \<le> j \<and> j \<le> n \<longrightarrow> k j = None)"
proof (induction n)
  case 0
  then show ?case by simp
next
  case (Suc n)
  show ?case
  proof (cases "k (Suc n)")
    case None
    have "(\<forall>j. 1 \<le> j \<and> j \<le> Suc n \<longrightarrow> k j = None) \<longleftrightarrow> (\<forall>j. 1 \<le> j \<and> j \<le> n \<longrightarrow> k j = None)"
      using None by (metis le_Suc_eq)
    then show ?thesis using None Suc by simp
  next
    case (Some m)
    then show ?thesis by force
  qed
qed

lemma greedy_Some:
  "greedy k n = Some v \<Longrightarrow>
     \<exists>j m. 1 \<le> j \<and> j \<le> n \<and> k j = Some m \<and> v = j + m \<and> (\<forall>i. j < i \<and> i \<le> n \<longrightarrow> k i = None)"
proof (induction n)
  case 0
  then show ?case by simp
next
  case (Suc n)
  show ?case
  proof (cases "k (Suc n)")
    case None
    with Suc.prems have "greedy k n = Some v" by simp
    from Suc.IH [OF this] obtain j m where
      "1 \<le> j" "j \<le> n" "k j = Some m" "v = j + m" "\<forall>i. j < i \<and> i \<le> n \<longrightarrow> k i = None"
      by blast
    moreover have "\<forall>i. j < i \<and> i \<le> Suc n \<longrightarrow> k i = None"
      using calculation(5) None by (metis le_Suc_eq)
    ultimately show ?thesis by (metis le_Suc_eq)
  next
    case (Some m)
    with Suc.prems have "v = Suc n + m" by simp
    then show ?thesis using Some by (intro exI [of _ "Suc n"] exI [of _ m]) auto
  qed
qed

lemma greedy_top:
  "1 \<le> j \<Longrightarrow> j \<le> n \<Longrightarrow> k j = Some m \<Longrightarrow> (\<forall>i. j < i \<and> i \<le> n \<longrightarrow> k i = None) \<Longrightarrow>
     greedy k n = Some (j + m)"
proof (induction n)
  case 0
  then show ?case by simp
next
  case (Suc n)
  show ?case
  proof (cases "j = Suc n")
    case True
    then show ?thesis using Suc.prems by simp
  next
    case False
    then have "j \<le> n" using Suc.prems by simp
    moreover have "k (Suc n) = None" using Suc.prems False by simp
    ultimately show ?thesis using Suc by simp
  qed
qed

lemma match_lits:
  "match_here (map Lit cs @ r) s =
     (if prefix cs s then map_option ((+) (length cs)) (match_here r (drop (length cs) s))
      else None)"
proof (induction cs arbitrary: s)
  case Nil
  show ?case by (cases "match_here r s") simp_all
next
  case (Cons c cs)
  show ?case
  proof (cases s)
    case Nil
    then show ?thesis by simp
  next
    case (Cons x xs)
    then show ?thesis
      using Cons.IH [of xs] by (simp add: option.map_comp comp_def)
  qed
qed

lemma match_lits_only:
  "match_here (map Lit cs) s = (if prefix cs s then Some (length cs) else None)"
  using match_lits [of cs "[]" s] by simp

lemma match_story_rx:
  "match_here story_rx s =
     (if prefix STORY_ROOT s
      then map_option ((+) 21)
             (greedy (ext_at (drop 21 s)) (length (takeWhile path_char (drop 21 s))))
      else None)"
proof -
  have "match_here (Plus path_char # map Lit STORY_EXT) t =
      greedy (ext_at t) (length (takeWhile path_char t))" for t
  proof -
    have "length STORY_EXT = 3" by (simp add: STORY_EXT_def units_def)
    then have "(\<lambda>n. match_here (map Lit STORY_EXT) (drop n t)) = ext_at t"
      by (simp add: match_lits_only ext_at_def fun_eq_iff)
    then show ?thesis by simp
  qed
  note plus = this
  have rx: "story_rx = map Lit STORY_ROOT @ (Plus path_char # map Lit STORY_EXT)"
    by (simp add: story_rx_def)
  have len: "length STORY_ROOT = 21"
    by (simp add: STORY_ROOT_def units_def)
  show ?thesis
    by (simp only: rx match_lits len plus)
qed


lemma path_char_ext: "list_all path_char STORY_EXT"
  by (simp add: STORY_EXT_def units_def path_char_def is_space_def dquote_def squote_def rparen_def)

lemma takeWhile_all: "list_all p xs \<Longrightarrow> takeWhile p (xs @ ys) = xs @ takeWhile p ys"
  by (induction xs) auto

lemma take_in_run: "j \<le> length (takeWhile p xs) \<Longrightarrow> list_all p (take j xs)"
  by (induction xs arbitrary: j) (auto simp: take_Cons' split: if_splits)

lemma match_story_sound:
  assumes "match_here story_rx s = Some n"
  shows "is_story_path (take n s) \<and> n \<le> length s"
proof -
  define t where "t = drop 21 s"
  define N where "N = length (takeWhile path_char t)"
  have len: "length STORY_ROOT = 21" "length STORY_EXT = 3"
    by (simp_all add: STORY_ROOT_def STORY_EXT_def units_def)
  from assms have pre: "prefix STORY_ROOT s"
    by (simp add: match_story_rx split: if_splits)
  then have s: "s = STORY_ROOT @ t"
    unfolding t_def using len by (metis append_eq_conv_conj prefixE)
  from assms pre obtain v where g: "greedy (ext_at t) N = Some v" and n: "n = 21 + v"
    by (auto simp: match_story_rx t_def N_def)
  from greedy_Some [OF g] obtain j m where j: "1 \<le> j" "j \<le> N"
    and e: "ext_at t j = Some m" and v: "v = j + m"
    by blast
  from e have m: "m = 3" and ext: "prefix STORY_EXT (drop j t)"
    by (auto simp: ext_at_def split: if_splits)
  from ext obtain rest where rest: "drop j t = STORY_EXT @ rest"
    by (auto simp: prefix_def)
  define body where "body = take j t"
  have jl: "j \<le> length t"
    using j(2) length_takeWhile_le [of path_char t] unfolding N_def by linarith
  have t: "t = body @ STORY_EXT @ rest"
    unfolding body_def using rest by (metis append_take_drop_id)
  have lb: "length body = j"
    using jl by (simp add: body_def)
  have seq: "s = STORY_ROOT @ body @ STORY_EXT @ rest"
    using s t by simp
  have tk: "take n s = STORY_ROOT @ body @ STORY_EXT"
    using len lb n v m by (simp add: seq)
  have nl: "n \<le> length s"
    using len lb n v m by (simp add: seq)
  have all: "list_all path_char body"
    unfolding body_def using j(2) take_in_run [of j path_char t] by (simp add: N_def)
  have ne: "body \<noteq> []"
    using lb j(1) by auto
  show ?thesis
    using tk nl all ne by (auto simp: is_story_path_def)
qed

lemma match_story_complete:
  assumes "is_story_path p"
  shows "\<exists>n. match_here story_rx (p @ rest) = Some n \<and> length p \<le> n"
proof -
  from assms obtain body where p: "p = STORY_ROOT @ body @ STORY_EXT"
    and ne: "body \<noteq> []" and all: "list_all path_char body"
    by (auto simp: is_story_path_def)
  let ?t = "body @ STORY_EXT @ rest"
  let ?N = "length (takeWhile path_char ?t)"
  have len: "length STORY_ROOT = 21" "length STORY_EXT = 3"
    by (simp_all add: STORY_ROOT_def STORY_EXT_def units_def)
  have m: "match_here story_rx (p @ rest) = map_option ((+) 21) (greedy (ext_at ?t) ?N)"
    using len by (simp add: match_story_rx p)
  have N: "length body \<le> ?N"
    by (simp add: takeWhile_all [OF all])
  have e: "ext_at ?t (length body) = Some 3"
    by (simp add: ext_at_def)
  have "greedy (ext_at ?t) ?N \<noteq> None"
    using greedy_None_iff [of "ext_at ?t" ?N] N e ne
    by (metis One_nat_def Suc_leI length_greater_0_conv option.distinct(1))
  then obtain v where g: "greedy (ext_at ?t) ?N = Some v" by auto
  from greedy_Some [OF g] obtain j k where j: "1 \<le> j" "j \<le> ?N"
    and ej: "ext_at ?t j = Some k" and v: "v = j + k"
    and top: "\<forall>i. j < i \<and> i \<le> ?N \<longrightarrow> ext_at ?t i = None"
    by blast
  have k: "k = 3" using ej by (auto simp: ext_at_def split: if_splits)
  have "length body \<le> j"
  proof (rule ccontr)
    assume "\<not> length body \<le> j"
    then have "ext_at ?t (length body) = None" using top N by simp
    then show False using e by simp
  qed
  then have "length p \<le> 21 + v"
    using v k len by (simp add: p)
  then show ?thesis using m g by simp
qed

lemma ext_free_iff:
  "ext_free after \<longleftrightarrow>
     (\<forall>k\<le>length (takeWhile path_char after). \<not> prefix STORY_EXT (drop k after))"
  by (auto simp: ext_free_def list_all_iff less_Suc_eq_le)

lemma ext_free_stop:
  assumes "after = [] \<or> \<not> path_char (hd after)"
  shows "ext_free after"
proof -
  have stop: "takeWhile path_char after = []"
    using assms by (cases after) auto
  have dot: "path_char (of_char CHR ''.'')"
    by (simp add: path_char_def is_space_def dquote_def squote_def rparen_def)
  have "\<not> prefix STORY_EXT after"
    using assms dot by (cases after) (auto simp: STORY_EXT_def units_def)
  then show ?thesis
    by (simp add: ext_free_iff stop)
qed

lemma match_story_exact_iff:
  assumes "is_story_path p"
  shows "match_here story_rx (p @ after) = Some (length p) \<longleftrightarrow> ext_free after"
proof -
  from assms obtain body where p: "p = STORY_ROOT @ body @ STORY_EXT"
    and ne: "body \<noteq> []" and all: "list_all path_char body"
    by (auto simp: is_story_path_def)
  define run where "run = takeWhile path_char after"
  define t where "t = body @ STORY_EXT @ after"
  define N where "N = length (takeWhile path_char t)"
  have len: "length STORY_ROOT = 21" "length STORY_EXT = 3"
    by (simp_all add: STORY_ROOT_def STORY_EXT_def units_def)
  have lp: "length p = 21 + (length body + 3)"
    using len by (simp add: p)
  have m: "match_here story_rx (p @ after) = map_option ((+) 21) (greedy (ext_at t) N)"
    using len by (simp add: match_story_rx p t_def N_def)
  have "takeWhile path_char t = body @ STORY_EXT @ run"
    using takeWhile_all [OF all, of "STORY_EXT @ after"]
      takeWhile_all [OF path_char_ext, of after]
    by (simp add: t_def run_def)
  then have N: "N = length body + 3 + length run"
    using len by (simp add: N_def)
  have e: "ext_at t (length body) = Some 3"
    by (simp add: ext_at_def t_def)
  have near: "ext_at t (length body + 1) = None" "ext_at t (length body + 2) = None"
    by (simp_all add: ext_at_def t_def STORY_EXT_def units_def)
  have far: "ext_at t (length body + 3 + k) =
      (if prefix STORY_EXT (drop k after) then Some 3 else None)" for k
    using len by (simp add: ext_at_def t_def)
  have top_iff: "(\<forall>i. length body < i \<and> i \<le> N \<longrightarrow> ext_at t i = None) \<longleftrightarrow> ext_free after"
  proof
    assume top: "\<forall>i. length body < i \<and> i \<le> N \<longrightarrow> ext_at t i = None"
    show "ext_free after"
      unfolding ext_free_iff
    proof (intro allI impI)
      fix k assume "k \<le> length (takeWhile path_char after)"
      then have "ext_at t (length body + 3 + k) = None"
        using top N by (simp add: run_def)
      then show "\<not> prefix STORY_EXT (drop k after)"
        by (simp add: far split: if_splits)
    qed
  next
    assume free: "ext_free after"
    show "\<forall>i. length body < i \<and> i \<le> N \<longrightarrow> ext_at t i = None"
    proof (intro allI impI)
      fix i assume i: "length body < i \<and> i \<le> N"
      then have "i = length body + 1 \<or> i = length body + 2 \<or>
          (i = length body + 3 + (i - length body - 3) \<and> i - length body - 3 \<le> length run)"
        using N by arith
      then consider "i = length body + 1" | "i = length body + 2"
        | k where "i = length body + 3 + k" "k \<le> length run"
        by blast
      then show "ext_at t i = None"
      proof cases
        case 1
        then show ?thesis using near(1) by simp
      next
        case 2
        then show ?thesis using near(2) by simp
      next
        case 3
        then have "\<not> prefix STORY_EXT (drop k after)"
          using free by (simp add: ext_free_iff run_def)
        then show ?thesis by (simp add: 3(1) far)
      qed
    qed
  qed
  have one: "1 \<le> length body" using ne by (cases body) auto
  show ?thesis
  proof
    assume "match_here story_rx (p @ after) = Some (length p)"
    then have g: "greedy (ext_at t) N = Some (length body + 3)"
      by (auto simp: m lp)
    from greedy_Some [OF g] obtain j k where j: "1 \<le> j" "j \<le> N"
      and ej: "ext_at t j = Some k" and v: "length body + 3 = j + k"
      and top: "\<forall>i. j < i \<and> i \<le> N \<longrightarrow> ext_at t i = None"
      by blast
    have "k = 3" using ej by (auto simp: ext_at_def split: if_splits)
    then have "j = length body" using v by simp
    then show "ext_free after" using top top_iff by simp
  next
    assume "ext_free after"
    then have top: "\<forall>i. length body < i \<and> i \<le> N \<longrightarrow> ext_at t i = None"
      using top_iff by simp
    have "length body \<le> N" using N by simp
    from greedy_top [OF one this e top]
    show "match_here story_rx (p @ after) = Some (length p)"
      by (simp add: m lp)
  qed
qed

lemma match_story_exact:
  assumes "is_story_path p" and "after = [] \<or> \<not> path_char (hd after)"
  shows "match_here story_rx (p @ after) = Some (length p)"
  using match_story_exact_iff [OF assms(1)] ext_free_stop [OF assms(2)] by simp

lemma search_hit: "match_here r s = Some n \<Longrightarrow> regex_search r s = Some (take n s)"
  by (cases s) auto

lemma search_skip:
  "(\<forall>i<length pre. match_here r (drop i (pre @ s)) = None) \<Longrightarrow>
     regex_search r (pre @ s) = regex_search r s"
proof (induction pre)
  case Nil
  then show ?case by simp
next
  case (Cons x pre)
  from Cons.prems have "match_here r ((x # pre) @ s) = None" by force
  moreover have "\<forall>i<length pre. match_here r (drop i (pre @ s)) = None"
  proof (intro allI impI)
    fix i assume "i < length pre"
    then have "match_here r (drop (Suc i) ((x # pre) @ s)) = None"
      using Cons.prems by (metis Suc_less_eq length_Cons)
    then show "match_here r (drop i (pre @ s)) = None" by simp
  qed
  ultimately show ?case using Cons.IH by simp
qed

lemma search_Some:
  "regex_search r s = Some m \<Longrightarrow>
     \<exists>pre post n. s = pre @ post \<and> match_here r post = Some n \<and> m = take n post \<and>
       (\<forall>i<length pre. match_here r (drop i s) = None)"
proof (induction s)
  case Nil
  then show ?case by (cases "match_here r []") auto
next
  case (Cons x xs)
  show ?case
  proof (cases "match_here r (x # xs)")
    case (Some n)
    with Cons.prems have "m = take n (x # xs)" by simp
    then show ?thesis
      using Some by (intro exI [of _ "[]"] exI [of _ "x # xs"] exI [of _ n]) simp
  next
    case None
    with Cons.prems have "regex_search r xs = Some m" by simp
    from Cons.IH [OF this] obtain pre post n where xs: "xs = pre @ post"
      and mh: "match_here r post = Some n" and m: "m = take n post"
      and no: "\<forall>i<length pre. match_here r (drop i xs) = None"
      by blast
    have "\<forall>i<length (x # pre). match_here r (drop i (x # xs)) = None"
    proof (intro allI impI)
      fix i assume "i < length (x # pre)"
      then show "match_here r (drop i (x # xs)) = None"
        using None no by (cases i) auto
    qed
    then show ?thesis
      using xs mh m by (intro exI [of _ "x # pre"] exI [of _ post] exI [of _ n]) simp
  qed
qed

lemma search_None:
  "regex_search r (pre @ post) = None \<Longrightarrow> match_here r post = None"
proof (induction pre)
  case Nil
  then show ?case by (cases post) (auto split: option.splits)
next
  case (Cons x pre)
  then show ?case by (auto split: option.splits)
qed

lemma story_path_not_Nil: "is_story_path p \<Longrightarrow> p \<noteq> []"
  by (auto simp: is_story_path_def STORY_ROOT_def units_def)

lemma starts_path_match: "starts_path s \<longleftrightarrow> match_here story_rx s \<noteq> None"
proof
  assume "starts_path s"
  then obtain p rest where "s = p @ rest" "is_story_path p"
    by (auto simp: starts_path_def)
  then show "match_here story_rx s \<noteq> None"
    using match_story_complete [of p rest] by auto
next
  assume "match_here story_rx s \<noteq> None"
  then obtain n where n: "match_here story_rx s = Some n" by auto
  from match_story_sound [OF n] have "is_story_path (take n s)" by simp
  moreover have "s = take n s @ drop n s" by simp
  ultimately show "starts_path s" unfolding starts_path_def by blast
qed

lemma prefix_cut: "length cs \<le> length a \<Longrightarrow> prefix cs (a @ b) = prefix cs a"
  by (auto simp: prefix_append)

lemma prefix_avoid: "prefix cs (u @ c # v) \<Longrightarrow> c \<notin> set cs \<Longrightarrow> prefix cs u"
  by (auto simp: prefix_append prefix_Cons)

lemma root_free_iff:
  "root_free pre \<longleftrightarrow> (\<forall>i<length pre. \<not> prefix STORY_ROOT (drop i pre @ STORY_ROOT))"
  by (auto simp: root_free_def list_all_iff)

lemma root_free_snoc:
  assumes "root_free b" and "c \<notin> set STORY_ROOT"
  shows "root_free (b @ [c])"
  unfolding root_free_iff
proof (intro allI impI)
  fix i assume i: "i < length (b @ [c])"
  show "\<not> prefix STORY_ROOT (drop i (b @ [c]) @ STORY_ROOT)"
  proof (cases "i < length b")
    case True
    show ?thesis
    proof
      assume "prefix STORY_ROOT (drop i (b @ [c]) @ STORY_ROOT)"
      then have "prefix STORY_ROOT (drop i b @ c # STORY_ROOT)"
        using True by simp
      then have "prefix STORY_ROOT (drop i b)"
        using assms(2) by (rule prefix_avoid)
      then have "prefix STORY_ROOT (drop i b @ STORY_ROOT)"
        by (simp add: prefix_prefix)
      then show False
        using assms(1) True by (simp add: root_free_iff)
    qed
  next
    case False
    then have "i = length b" using i by simp
    then show ?thesis
      using assms(2) by (auto simp: prefix_Cons STORY_ROOT_def units_def)
  qed
qed

lemma no_match_before:
  assumes "root_free before" and "is_story_path p" and "i < length before"
  shows "match_here story_rx (drop i (before @ p @ after)) = None"
proof (rule ccontr)
  assume "match_here story_rx (drop i (before @ p @ after)) \<noteq> None"
  then have pre: "prefix STORY_ROOT (drop i (before @ p @ after))"
    by (simp add: match_story_rx split: if_splits)
  from assms(2) obtain rest where p: "p = STORY_ROOT @ rest"
    by (auto simp: is_story_path_def)
  have "length STORY_ROOT \<le> length (drop i before @ STORY_ROOT)" by simp
  from prefix_cut [OF this, of "rest @ after"] pre
  have "prefix STORY_ROOT (drop i before @ STORY_ROOT)"
    using assms(3) by (simp add: p)
  then show False
    using assms(1,3) by (simp add: root_free_iff)
qed

lemma extract_first_path:
  assumes "is_story_path p" and "root_free before" and "after = [] \<or> \<not> path_char (hd after)"
  shows "extractStoryFilePath (Some (before @ p @ after)) = Some p"
proof -
  have "regex_search story_rx (before @ (p @ after)) = regex_search story_rx (p @ after)"
    using no_match_before [OF assms(2,1)] by (intro search_skip) simp
  also have "\<dots> = Some (take (length p) (p @ after))"
    by (rule search_hit [OF match_story_exact [OF assms(1,3)]])
  finally show ?thesis
    using story_path_not_Nil [OF assms(1)] by (simp add: extractStoryFilePath_def)
qed

lemma extract_exact_iff:
  assumes "is_story_path p"
    and "\<forall>i<length before. match_here story_rx (drop i (before @ p @ after)) = None"
  shows "extractStoryFilePath (Some (before @ p @ after)) = Some p \<longleftrightarrow> ext_free after"
proof -
  from match_story_complete [OF assms(1), of after] obtain n
    where n: "match_here story_rx (p @ after) = Some n" and ln: "length p \<le> n"
    by blast
  from match_story_sound [OF n] have nl: "n \<le> length (p @ after)" by simp
  have "regex_search story_rx (before @ (p @ after)) = regex_search story_rx (p @ after)"
    using assms(2) by (intro search_skip) simp
  also have "\<dots> = Some (take n (p @ after))"
    by (rule search_hit [OF n])
  finally have ex: "extractStoryFilePath (Some (before @ p @ after)) = Some (take n (p @ after))"
    using story_path_not_Nil [OF assms(1)] by (simp add: extractStoryFilePath_def)
  have "take n (p @ after) = p \<longleftrightarrow> n = length p"
  proof
    assume "take n (p @ after) = p"
    then have "length (take n (p @ after)) = length p" by simp
    then show "n = length p" using nl by simp
  qed simp
  then have "extractStoryFilePath (Some (before @ p @ after)) = Some p \<longleftrightarrow> n = length p"
    by (simp add: ex)
  also have "\<dots> \<longleftrightarrow> match_here story_rx (p @ after) = Some (length p)"
    using n by auto
  also have "\<dots> \<longleftrightarrow> ext_free after"
    by (rule match_story_exact_iff [OF assms(1)])
  finally show ?thesis .
qed

lemmas story_eval = extractStoryFilePath_def story_rx_def STORY_ROOT_def STORY_EXT_def
  units_def sample_story_path_def path_char_def is_space_def dquote_def squote_def
  rparen_def lparen_def

lemma sample_is_story_path: "is_story_path sample_story_path"
proof -
  have "sample_story_path = STORY_ROOT @ units ''cruzbot/epic-1-story-3-test'' @ STORY_EXT"
    by (simp add: sample_story_path_def STORY_ROOT_def STORY_EXT_def units_def)
  moreover have "list_all path_char (units ''cruzbot/epic-1-story-3-test'')"
    by (simp add: units_def path_char_def is_space_def dquote_def squote_def rparen_def)
  moreover have "units ''cruzbot/epic-1-story-3-test'' \<noteq> []"
    by (simp add: units_def)
  ultimately show ?thesis
    unfolding is_story_path_def by blast
qed

text \<open>
  Claim C9, as stated, fails: the repetition is greedy, so where class characters that
  end in the extension follow a story path at once, the match runs on to them. In a
  markdown link whose text is the path itself the path stands in the parentheses of the
  link, and what is returned is not the path; a bare path followed by a comma and
  another name is returned with them.
\<close>

theorem greedy_match_counterexample:
  "is_story_path sample_story_path \<and>
   extractStoryFilePath
     (Some (units ''['' @ sample_story_path @ units '']('' @ sample_story_path @ units '')'')) =
     Some (sample_story_path @ units '']('' @ sample_story_path) \<and>
   extractStoryFilePath
     (Some (units ''['' @ sample_story_path @ units '']('' @ sample_story_path @ units '')'')) \<noteq>
     Some sample_story_path \<and>
   extractStoryFilePath
     (Some (units ''See '' @ sample_story_path @ units '',notes.md now'')) =
     Some (sample_story_path @ units '',notes.md'')"
proof -
  have "extractStoryFilePath
     (Some (units ''['' @ sample_story_path @ units '']('' @ sample_story_path @ units '')'')) =
     Some (sample_story_path @ units '']('' @ sample_story_path)"
    by (simp add: story_eval)
  moreover have "extractStoryFilePath
     (Some (units ''['' @ sample_story_path @ units '']('' @ sample_story_path @ units '')'')) \<noteq>
     Some sample_story_path"
    by (simp add: story_eval)
  moreover have "extractStoryFilePath
     (Some (units ''See '' @ sample_story_path @ units '',notes.md now'')) =
     Some (sample_story_path @ units '',notes.md'')"
    by (simp add: story_eval)
  ultimately show ?thesis
    using sample_is_story_path by simp
qed

text \<open>
  Claim C9, amended. \<^verbatim>\<open>extractStoryFilePath\<close> returns null for null, undefined and the
  empty string, and for a text exactly when no story path occurs in it. Otherwise the
  result is the leftmost match, greedy in the repetition: a story path of the text
  before which no story path begins, and the longest one that begins there. For a story
  path \<open>p\<close> before which no story path begins, the result is \<open>p\<close> itself exactly when the
  extension does not occur again in the run of class characters that follows \<open>p\<close>. So,
  where no occurrence of the root segment precedes \<open>p\<close>, the result is \<open>p\<close> for \<open>p\<close> bare
  and followed by white space or the end of the text, for \<open>p\<close> between double or single
  quotes, and for \<open>p\<close> between the parentheses of a markdown link, whatever follows.
\<close>

theorem extractStoryFilePath_leftmost_greedy:
  "extractStoryFilePath None = None \<and>
   extractStoryFilePath (Some []) = None \<and>
   (extractStoryFilePath (Some text) = None \<longleftrightarrow>
      \<not> (\<exists>pre p post. text = pre @ p @ post \<and> is_story_path p)) \<and>
   (\<forall>m. extractStoryFilePath (Some text) = Some m \<longrightarrow>
      (\<exists>pre post. text = pre @ m @ post \<and> is_story_path m \<and>
         list_all (\<lambda>i. \<not> starts_path (drop i text)) [0..<length pre] \<and>
         (\<forall>q. is_story_path q \<and> prefix q (m @ post) \<longrightarrow> length q \<le> length m))) \<and>
   (is_story_path p \<and>
    list_all (\<lambda>i. \<not> starts_path (drop i (before @ p @ after))) [0..<length before] \<longrightarrow>
      (extractStoryFilePath (Some (before @ p @ after)) = Some p \<longleftrightarrow> ext_free after)) \<and>
   (is_story_path p \<and> root_free before \<longrightarrow>
      (after = [] \<or> is_space (hd after) \<longrightarrow>
         extractStoryFilePath (Some (before @ p @ after)) = Some p) \<and>
      extractStoryFilePath (Some (before @ [dquote] @ p @ [dquote] @ after)) = Some p \<and>
      extractStoryFilePath (Some (before @ [squote] @ p @ [squote] @ after)) = Some p \<and>
      extractStoryFilePath (Some (before @ [lparen] @ p @ [rparen] @ after)) = Some p)"
proof (intro conjI allI impI)
  show "extractStoryFilePath None = None" "extractStoryFilePath (Some []) = None"
    by (simp_all add: extractStoryFilePath_def)
next
  show "extractStoryFilePath (Some text) = None \<longleftrightarrow>
      \<not> (\<exists>pre p post. text = pre @ p @ post \<and> is_story_path p)"
  proof
    assume none: "extractStoryFilePath (Some text) = None"
    show "\<not> (\<exists>pre p post. text = pre @ p @ post \<and> is_story_path p)"
    proof
      assume "\<exists>pre p post. text = pre @ p @ post \<and> is_story_path p"
      then obtain pre p post where t: "text = pre @ p @ post" and p: "is_story_path p"
        by blast
      have "text \<noteq> []" using t story_path_not_Nil [OF p] by simp
      then have "regex_search story_rx text = None"
        using none by (simp add: extractStoryFilePath_def)
      then have "regex_search story_rx (pre @ (p @ post)) = None"
        by (simp only: t)
      then have "match_here story_rx (p @ post) = None"
        by (rule search_None)
      then show False
        using match_story_complete [OF p, of post] by auto
    qed
  next
    assume no: "\<not> (\<exists>pre p post. text = pre @ p @ post \<and> is_story_path p)"
    show "extractStoryFilePath (Some text) = None"
    proof (rule ccontr)
      assume "extractStoryFilePath (Some text) \<noteq> None"
      then obtain m where "regex_search story_rx text = Some m"
        by (auto simp: extractStoryFilePath_def split: if_splits)
      from search_Some [OF this] obtain pre post n where t: "text = pre @ post"
        and mh: "match_here story_rx post = Some n" by blast
      from match_story_sound [OF mh] have "is_story_path (take n post)" by simp
      moreover have "text = pre @ take n post @ drop n post" using t by simp
      ultimately show False using no by blast
    qed
  qed
next
  fix m assume "extractStoryFilePath (Some text) = Some m"
  then have "regex_search story_rx text = Some m"
    by (auto simp: extractStoryFilePath_def split: if_splits)
  from search_Some [OF this] obtain pre post n where t: "text = pre @ post"
    and mh: "match_here story_rx post = Some n" and m: "m = take n post"
    and no: "\<forall>i<length pre. match_here story_rx (drop i text) = None"
    by blast
  from match_story_sound [OF mh] have sp: "is_story_path m" and nl: "n \<le> length post"
    using m by simp_all
  have lm: "length m = n" using m nl by simp
  have post: "m @ drop n post = post" using m by simp
  have "text = pre @ m @ drop n post" using t m by simp
  moreover have "list_all (\<lambda>i. \<not> starts_path (drop i text)) [0..<length pre]"
    using no by (simp add: list_all_iff starts_path_match)
  moreover have "\<forall>q. is_story_path q \<and> prefix q (m @ drop n post) \<longrightarrow> length q \<le> length m"
  proof (intro allI impI)
    fix q assume q: "is_story_path q \<and> prefix q (m @ drop n post)"
    then obtain rest where "post = q @ rest"
      using post by (auto simp: prefix_def)
    with match_story_complete [of q rest] q mh show "length q \<le> length m"
      by (auto simp: lm)
  qed
  ultimately show "\<exists>pre post. text = pre @ m @ post \<and> is_story_path m \<and>
         list_all (\<lambda>i. \<not> starts_path (drop i text)) [0..<length pre] \<and>
         (\<forall>q. is_story_path q \<and> prefix q (m @ post) \<longrightarrow> length q \<le> length m)"
    using sp by blast
next
  assume h: "is_story_path p \<and>
    list_all (\<lambda>i. \<not> starts_path (drop i (before @ p @ after))) [0..<length before]"
  then have "\<forall>i<length before. match_here story_rx (drop i (before @ p @ after)) = None"
    by (simp add: list_all_iff starts_path_match)
  then show "extractStoryFilePath (Some (before @ p @ after)) = Some p \<longleftrightarrow> ext_free after"
    using h by (intro extract_exact_iff) simp_all
next
  assume h: "is_story_path p \<and> root_free before" and a: "after = [] \<or> is_space (hd after)"
  then have "after = [] \<or> \<not> path_char (hd after)"
    by (auto simp: path_char_def)
  then show "extractStoryFilePath (Some (before @ p @ after)) = Some p"
    using h by (intro extract_first_path) auto
next
  assume h: "is_story_path p \<and> root_free before"
  have "root_free (before @ [dquote])"
    using h by (intro root_free_snoc) (auto simp: STORY_ROOT_def units_def dquote_def)
  moreover have "\<not> path_char (hd (dquote # after))"
    by (simp add: path_char_def)
  ultimately have
    "extractStoryFilePath (Some ((before @ [dquote]) @ p @ (dquote # after))) = Some p"
    using h by (intro extract_first_path) auto
  then show "extractStoryFilePath (Some (before @ [dquote] @ p @ [dquote] @ after)) = Some p"
    by simp
next
  assume h: "is_story_path p \<and> root_free before"
  have "root_free (before @ [squote])"
    using h by (intro root_free_snoc) (auto simp: STORY_ROOT_def units_def squote_def)
  moreover have "\<not> path_char (hd (squote # after))"
    by (simp add: path_char_def)
  ultimately have
    "extractStoryFilePath (Some ((before @ [squote]) @ p @ (squote # after))) = Some p"
    using h by (intro extract_first_path) auto
  then show "extractStoryFilePath (Some (before @ [squote] @ p @ [squote] @ after)) = Some p"
    by simp
next
  assume h: "is_story_path p \<and> root_free before"
  have "root_free (before @ [lparen])"
    using h by (intro root_free_snoc) (auto simp: STORY_ROOT_def units_def lparen_def)
  moreover have "\<not> path_char (hd (rparen # after))"
    by (simp add: path_char_def)
  ultimately have
    "extractStoryFilePath (Some ((before @ [lparen]) @ p @ (rparen # after))) = Some p"
    using h by (intro extract_first_path) auto
  then show "extractStoryFilePath (Some (before @ [lparen] @ p @ [rparen] @ after)) = Some p"
    by simp
qed

theorem extractStoryFilePath_leftmost_greedy_witness:
  "extractStoryFilePath
     (Some (units ''Story: [link]'' @ sample_story_path @ units '' for details.'')) =
     Some sample_story_path \<and>
   extractStoryFilePath
     (Some (units ''Story: [link]'' @ [dquote] @ sample_story_path @ [dquote] @
            units '' for details.'')) = Some sample_story_path \<and>
   extractStoryFilePath
     (Some (units ''Story: [link]'' @ [squote] @ sample_story_path @ [squote] @
            units '' for details.'')) = Some sample_story_path \<and>
   extractStoryFilePath
     (Some (units ''Story: [link]'' @ [lparen] @ sample_story_path @ [rparen] @
            units '' for details.'')) = Some sample_story_path \<and>
   extractStoryFilePath
     (Some (units ''See '' @ sample_story_path @ units ''. Then go on.'')) =
     Some sample_story_path \<and>
   \<not> (\<exists>pre p post. units ''No story file mentioned here.'' = pre @ p @ post \<and>
         is_story_path p)"
proof -
  note p = sample_is_story_path
  have r: "root_free (units ''Story: [link]'')"
    by (simp add: root_free_def story_eval upt_rec)
  have a: "is_space (hd (units '' for details.''))"
    by (simp add: is_space_def units_def)
  have n: "extractStoryFilePath (Some (units ''No story file mentioned here.'')) = None"
    by (simp add: story_eval)
  have "list_all (\<lambda>i. match_here story_rx
      (drop i (units ''See '' @ sample_story_path @ units ''. Then go on.'')) = None)
      [0..<length (units ''See '')]"
    by (simp add: story_eval upt_rec)
  then have e: "list_all (\<lambda>i. \<not> starts_path
      (drop i (units ''See '' @ sample_story_path @ units ''. Then go on.'')))
      [0..<length (units ''See '')]"
    by (simp add: starts_path_match)
  have f: "ext_free (units ''. Then go on.'')"
    by (simp add: ext_free_def story_eval upt_rec)
  note t1 = extractStoryFilePath_leftmost_greedy
      [of "units ''No story file mentioned here.''" sample_story_path
        "units ''Story: [link]''" "units '' for details.''"]
  note t2 = extractStoryFilePath_leftmost_greedy
      [of "units ''No story file mentioned here.''" sample_story_path
        "units ''See ''" "units ''. Then go on.''"]
  have "extractStoryFilePath
     (Some (units ''See '' @ sample_story_path @ units ''. Then go on.'')) =
     Some sample_story_path"
    using t2 p e f by blast
  then show ?thesis
    using t1 p r a n by simp
qed

section \<open>Properties of the handlers\<close>

subsection \<open>The ledger does not depend on the direct spawn\<close>

lemma same_ingestion_refl: "same_ingestion w w"
  by (simp add: same_ingestion_def)

lemma direct_spawn_same:
  "same_ingestion w w' \<Longrightarrow>
     same_ingestion (direct_spawn S src i t p w) (direct_spawn S' src i t p w')"
  by (auto simp: direct_spawn_def same_ingestion_def log_line_def Let_def is_error_line_def
      split: option.splits SpawnOutcome.splits)

lemma log_line_same:
  "same_ingestion w w' \<Longrightarrow> same_ingestion (log_line l w) (log_line l w')"
  by (auto simp: same_ingestion_def log_line_def)

lemma logEvent_same:
  "same_ingestion w w' \<Longrightarrow> same_ingestion (logEvent P ev w) (logEvent P ev w')"
  by (auto simp: same_ingestion_def logEvent_def read_clock_def)

lemma set_ledger_same:
  "same_ingestion w w' \<Longrightarrow> same_ingestion (w\<lparr>triggerFile := l\<rparr>) (w'\<lparr>triggerFile := l\<rparr>)"
  by (auto simp: same_ingestion_def)

lemma read_clock_same:
  "same_ingestion w w' \<Longrightarrow>
     fst (read_clock P w) = fst (read_clock P w') \<and>
     same_ingestion (snd (read_clock P w)) (snd (read_clock P w'))"
  by (auto simp: same_ingestion_def read_clock_def)

lemma report_same:
  "same_ingestion w w' \<Longrightarrow>
     same_ingestion (report_state_change P cfg payload w) (report_state_change P cfg payload w')"
  by (simp add: report_state_change_def Let_def logEvent_same log_line_same)

lemma trigger_in_dev_same:
  assumes "same_ingestion w w'"
  shows "same_ingestion (trigger_in_dev P S payload w) (trigger_in_dev P S' payload w')"
proof -
  obtain now w1 where rc: "read_clock P w = (now, w1)" by (cases "read_clock P w")
  obtain now' w1' where rc': "read_clock P w' = (now', w1')" by (cases "read_clock P w'")
  from read_clock_same [OF assms, of P] rc rc'
  have now: "now' = now" and w1: "same_ingestion w1 w1'" by simp_all
  have led: "triggerFile w1' = triggerFile w1"
    using w1 by (simp add: same_ingestion_def)
  show ?thesis
  proof (cases "writeTrigger P (triggerFile w1) (webhook_entry payload now)")
    case (Inl err)
    then show ?thesis
      using log_line_same [OF w1] by (simp add: trigger_in_dev_def rc rc' now led)
  next
    case (Inr r)
    obtain written l where r: "r = (written, l)" by (cases r)
    show ?thesis
      using Inr r direct_spawn_same [OF log_line_same [OF set_ledger_same [OF w1]]]
      by (simp add: trigger_in_dev_def rc rc' now led Let_def)
  qed
qed

lemma process_payload_same:
  assumes "same_ingestion w w'"
  shows "same_ingestion (process_payload P cfg S body w) (process_payload P cfg S' body w')"
  using assms log_line_same [OF assms] report_same [OF assms]
    trigger_in_dev_same [OF report_same [OF assms]]
  by (simp add: process_payload_def Let_def split: sum.splits)

lemma webhook_handler_same:
  "fst (webhook_handler P cfg S req w) = fst (webhook_handler P cfg S' req w) \<and>
   same_ingestion (snd (webhook_handler P cfg S req w)) (snd (webhook_handler P cfg S' req w))"
  using process_payload_same [OF same_ingestion_refl]
  by (simp add: webhook_handler_def Let_def same_ingestion_refl)

lemma poll_loop_same:
  "same_ingestion w w' \<Longrightarrow>
     fst (poll_loop P S xs n w) = fst (poll_loop P S' xs n w') \<and>
     same_ingestion (snd (poll_loop P S xs n w)) (snd (poll_loop P S' xs n w'))"
proof (induction xs arbitrary: n w w')
  case Nil
  then show ?case by simp
next
  case (Cons issue rest)
  show ?case
  proof (cases "Option.bind (node_state issue) state_id = Some IN_DEV_STATE_ID")
    case False
    then show ?thesis using Cons.IH [OF Cons.prems] by simp
  next
    case True
    obtain now w1 where rc: "read_clock P w = (now, w1)" by (cases "read_clock P w")
    obtain now' w1' where rc': "read_clock P w' = (now', w1')" by (cases "read_clock P w'")
    from read_clock_same [OF Cons.prems, of P] rc rc'
    have now: "now' = now" and w1: "same_ingestion w1 w1'" by simp_all
    have led: "triggerFile w1' = triggerFile w1"
      using w1 by (simp add: same_ingestion_def)
    show ?thesis
    proof (cases "writeTrigger P (triggerFile w1) (poll_entry issue now)")
      case (Inl err)
      then show ?thesis using True w1 by (simp add: rc rc' now led)
    next
      case (Inr r)
      obtain written l where r: "r = (written, l)" by (cases r)
      show ?thesis
      proof (cases written)
        case True
        then show ?thesis
          using Inr r \<open>Option.bind (node_state issue) state_id = Some IN_DEV_STATE_ID\<close>
            Cons.IH [OF direct_spawn_same [OF log_line_same [OF set_ledger_same [OF w1]]]]
          by (simp add: rc rc' now led)
      next
        case False
        then show ?thesis
          using Inr r \<open>Option.bind (node_state issue) state_id = Some IN_DEV_STATE_ID\<close>
            Cons.IH [OF set_ledger_same [OF w1]]
          by (simp add: rc rc' now led)
      qed
    qed
  qed
qed

lemma linear_poll_same:
  "fst (linear_poll P cfg S fetched w) = fst (linear_poll P cfg S' fetched w) \<and>
   same_ingestion (snd (linear_poll P cfg S fetched w)) (snd (linear_poll P cfg S' fetched w))"
proof (cases "teamId cfg = [] \<or> (\<exists>err. fetched = Inl err) \<or> fetched = Inr []")
  case True
  then show ?thesis
    by (auto simp: linear_poll_def same_ingestion_refl)
next
  case False
  then obtain issues where f: "fetched = Inr issues" "issues \<noteq> []" "teamId cfg \<noteq> []"
    by (cases fetched) auto
  obtain r v where a: "poll_loop P S issues 0 w = (r, v)" by (cases "poll_loop P S issues 0 w")
  obtain r' v' where b: "poll_loop P S' issues 0 w = (r', v')"
    by (cases "poll_loop P S' issues 0 w")
  from poll_loop_same [OF same_ingestion_refl, of P S issues 0 w S'] a b
  have "r = r'" "same_ingestion v v'" by simp_all
  then show ?thesis
    using f a b by (cases r') (simp_all add: linear_poll_def)
qed


subsection \<open>What the handlers write\<close>

lemma append_lines_Nil: "append_lines P led [] = led"
  by (simp add: append_lines_def)

lemma append_lines_one:
  "append_lines P led [fullEntry x] = append_pending P led x"
  by (simp add: append_lines_def append_pending_def)

lemma append_lines_snoc:
  "append_lines P (append_lines P led es) es' = append_lines P led (es @ es')"
  by (simp add: append_lines_def)

lemma writeTrigger_result:
  "writeTrigger P led x = Inr (written, led') \<Longrightarrow>
     led' = (if written then append_pending P led x else led)"
  by (auto simp: writeTrigger_def append_pending_def Let_def split: sum.splits if_splits)

lemma direct_spawn_ledger [simp]:
  "triggerFile (direct_spawn S src i t p w) = triggerFile w"
  by (auto simp: direct_spawn_def log_line_def Let_def split: option.splits SpawnOutcome.splits)

lemma log_line_ledger [simp]: "triggerFile (log_line l w) = triggerFile w"
  by (simp add: log_line_def)

lemma report_ledger [simp]: "triggerFile (report_state_change P cfg payload w) = triggerFile w"
  by (simp add: report_state_change_def logEvent_def read_clock_def Let_def)

lemma trigger_in_dev_ledger:
  "\<exists>es. length es \<le> 1 \<and> list_all (\<lambda>e. status e = pending) es \<and>
     triggerFile (trigger_in_dev P S payload w) = append_lines P (triggerFile w) es"
proof -
  obtain now w1 where rc: "read_clock P w = (now, w1)" by (cases "read_clock P w")
  then have led: "triggerFile w1 = triggerFile w" by (auto simp: read_clock_def)
  show ?thesis
  proof (cases "writeTrigger P (triggerFile w1) (webhook_entry payload now)")
    case (Inl err)
    then have "triggerFile (trigger_in_dev P S payload w) = append_lines P (triggerFile w) []"
      by (simp add: trigger_in_dev_def rc led append_lines_Nil)
    then show ?thesis by (intro exI [of _ "[]"]) simp
  next
    case (Inr r)
    obtain written l where r: "r = (written, l)" by (cases r)
    from writeTrigger_result [of P "triggerFile w1" "webhook_entry payload now" written l] Inr r
    have l: "l = (if written then append_pending P (triggerFile w) (webhook_entry payload now)
                  else triggerFile w)"
      by (simp add: led)
    have t: "triggerFile (trigger_in_dev P S payload w) = l"
      using Inr r by (simp add: trigger_in_dev_def rc Let_def)
    show ?thesis
    proof (cases written)
      case True
      then show ?thesis
        using t l by (intro exI [of _ "[fullEntry (webhook_entry payload now)]"])
          (simp add: append_lines_one)
    next
      case False
      then show ?thesis
        using t l by (intro exI [of _ "[]"]) (simp add: append_lines_Nil)
    qed
  qed
qed

lemma process_payload_ledger:
  "\<exists>es. length es \<le> 1 \<and> list_all (\<lambda>e. status e = pending) es \<and>
     triggerFile (process_payload P cfg S body w) = append_lines P (triggerFile w) es"
proof -
  have nil: "\<exists>es. length es \<le> 1 \<and> list_all (\<lambda>e. status e = pending) es \<and>
      triggerFile w = append_lines P (triggerFile w) es"
    by (intro exI [of _ "[]"]) (simp add: append_lines_Nil)
  show ?thesis
    using nil trigger_in_dev_ledger [of P S _ "report_state_change P cfg _ w"]
    by (simp add: process_payload_def Let_def split: sum.splits)
qed

lemma webhook_handler_ledger:
  "\<exists>es. length es \<le> 1 \<and> list_all (\<lambda>e. status e = pending) es \<and>
     triggerFile (snd (webhook_handler P cfg S req w)) = append_lines P (triggerFile w) es"
proof -
  have nil: "\<exists>es. length es \<le> 1 \<and> list_all (\<lambda>e. status e = pending) es \<and>
      triggerFile w = append_lines P (triggerFile w) es"
    by (intro exI [of _ "[]"]) (simp add: append_lines_Nil)
  show ?thesis
    using nil process_payload_ledger [of P cfg S "req_body req" w]
    by (simp add: webhook_handler_def Let_def)
qed

lemma poll_loop_ledger:
  "\<exists>es. list_all (\<lambda>e. status e = pending) es \<and>
     triggerFile (snd (poll_loop P S issues n w)) = append_lines P (triggerFile w) es"
proof (induction issues arbitrary: n w)
  case Nil
  show ?case by (intro exI [of _ "[]"]) (simp add: append_lines_Nil)
next
  case (Cons issue rest)
  show ?case
  proof (cases "Option.bind (node_state issue) state_id = Some IN_DEV_STATE_ID")
    case False
    then show ?thesis using Cons.IH [of n w] by simp
  next
    case True
    obtain now w1 where rc: "read_clock P w = (now, w1)" by (cases "read_clock P w")
    then have led: "triggerFile w1 = triggerFile w" by (auto simp: read_clock_def)
    show ?thesis
    proof (cases "writeTrigger P (triggerFile w1) (poll_entry issue now)")
      case (Inl err)
      then have "triggerFile (snd (poll_loop P S (issue # rest) n w)) =
          append_lines P (triggerFile w) []"
        using True by (simp add: rc led append_lines_Nil)
      then show ?thesis by (intro exI [of _ "[]"]) simp
    next
      case (Inr r)
      obtain written l where r: "r = (written, l)" by (cases r)
      from writeTrigger_result [of P "triggerFile w1" "poll_entry issue now" written l] Inr r
      have l: "l = (if written then append_pending P (triggerFile w) (poll_entry issue now)
                    else triggerFile w)"
        by (simp add: led)
      show ?thesis
      proof (cases written)
        case written: True
        define w3 where "w3 = direct_spawn S poll (node_identifier issue) (node_title issue)
            (story_path_of (node_description issue))
            (log_line (InfoTriggerWritten (node_identifier issue) poll) (w1\<lparr>triggerFile := l\<rparr>))"
        have w3: "triggerFile w3 = append_lines P (triggerFile w) [fullEntry (poll_entry issue now)]"
          using l written by (simp add: w3_def append_lines_one)
        from Cons.IH [of "Suc n" w3] obtain es where es: "list_all (\<lambda>e. status e = pending) es"
          "triggerFile (snd (poll_loop P S rest (Suc n) w3)) = append_lines P (triggerFile w3) es"
          by blast
        have "poll_loop P S (issue # rest) n w = poll_loop P S rest (Suc n) w3"
          using True Inr r written by (simp add: rc w3_def Let_def)
        then have "triggerFile (snd (poll_loop P S (issue # rest) n w)) =
            append_lines P (triggerFile w) (fullEntry (poll_entry issue now) # es)"
          using es(2) w3 append_lines_snoc [of P "triggerFile w" "[fullEntry (poll_entry issue now)]" es]
          by simp
        then show ?thesis
          using es(1) by (intro exI [of _ "fullEntry (poll_entry issue now) # es"]) simp
      next
        case False
        then have "poll_loop P S (issue # rest) n w = poll_loop P S rest n (w1\<lparr>triggerFile := l\<rparr>)"
          using True Inr r by (simp add: rc)
        moreover have "triggerFile (w1\<lparr>triggerFile := l\<rparr>) = triggerFile w"
          using l False by simp
        ultimately show ?thesis
          using Cons.IH [of n "w1\<lparr>triggerFile := l\<rparr>"] by simp
      qed
    qed
  qed
qed

lemma linear_poll_ledger:
  "\<exists>es. list_all (\<lambda>e. status e = pending) es \<and>
     triggerFile (snd (linear_poll P cfg S fetched w)) = append_lines P (triggerFile w) es"
proof -
  have nil: "\<exists>es. list_all (\<lambda>e. status e = pending) es \<and>
      triggerFile w = append_lines P (triggerFile w) es"
    by (intro exI [of _ "[]"]) (simp add: append_lines_Nil)
  show ?thesis
  proof (cases "teamId cfg = [] \<or> (\<exists>err. fetched = Inl err) \<or> fetched = Inr []")
    case True
    then show ?thesis using nil by (auto simp: linear_poll_def)
  next
    case False
    then obtain issues where f: "fetched = Inr issues" "issues \<noteq> []" "teamId cfg \<noteq> []"
      by (cases fetched) auto
    obtain r v where a: "poll_loop P S issues 0 w = (r, v)"
      by (cases "poll_loop P S issues 0 w")
    have "snd (linear_poll P cfg S fetched w) = v"
      using f a by (cases r) (simp_all add: linear_poll_def)
    then show ?thesis
      using poll_loop_ledger [of P S issues 0 w] a by simp
  qed
qed

lemma read_clock_simps [simp]:
  "fst (read_clock P w) = toISOString P (clock w)"
  "triggerFile (snd (read_clock P w)) = triggerFile w"
  "logged (snd (read_clock P w)) = logged w"
  by (simp_all add: read_clock_def)

lemma trigger_in_dev_admits:
  assumes "readTriggerLog P (triggerFile w) = Inr recs"
    and "\<not> list_ex (blocks (webhook_issueId payload)) recs"
  shows "trigger_in_dev P S payload w =
     direct_spawn S webhook (webhook_issueId payload) (webhook_issueTitle payload)
       (webhook_storyFilePath payload)
       (log_line (InfoTriggerWritten (webhook_issueId payload) webhook)
          ((snd (read_clock P w))\<lparr>triggerFile :=
             append_pending P (triggerFile w)
               (webhook_entry payload (toISOString P (clock w)))\<rparr>))"
proof -
  have "writeTrigger P (triggerFile w) (webhook_entry payload (toISOString P (clock w))) =
      Inr (True, append_pending P (triggerFile w)
                   (webhook_entry payload (toISOString P (clock w))))"
    using assms by (simp add: writeTrigger_def append_pending_def webhook_entry_def)
  then show ?thesis
    by (simp add: trigger_in_dev_def split_beta Let_def)
qed

lemma trigger_in_dev_dedups:
  assumes "readTriggerLog P (triggerFile w) = Inr recs"
    and "list_ex (blocks (webhook_issueId payload)) recs"
  shows "trigger_in_dev P S payload w =
     direct_spawn S webhook (webhook_issueId payload) (webhook_issueTitle payload)
       (webhook_storyFilePath payload)
       (log_line (InfoTriggerDeduped (webhook_issueId payload))
          ((snd (read_clock P w))\<lparr>triggerFile := triggerFile w\<rparr>))"
proof -
  have "writeTrigger P (triggerFile w) (webhook_entry payload (toISOString P (clock w))) =
      Inr (False, triggerFile w)"
    using assms by (simp add: writeTrigger_def webhook_entry_def)
  then show ?thesis
    by (simp add: trigger_in_dev_def split_beta Let_def)
qed

lemma direct_spawn_logged:
  "set (logged w) \<subseteq> set (logged (direct_spawn S src i t p w)) \<and>
   length (logged w) \<le> length (logged (direct_spawn S src i t p w))"
  by (auto simp: direct_spawn_def log_line_def Let_def split: option.splits SpawnOutcome.splits)

lemma report_logged:
  "logged (report_state_change P cfg payload w) =
     logged w @ [InfoStateChanged (webhook_issueId payload)
        (Option.bind (webhook_newStateId payload) STATE_MAP) (webhook_newStateId payload)]"
  by (simp add: report_state_change_def logEvent_def read_clock_def log_line_def Let_def)

lemma trigger_in_dev_logged:
  "set (logged w) \<subseteq> set (logged (trigger_in_dev P S payload w)) \<and>
   length (logged w) \<le> length (logged (trigger_in_dev P S payload w))"
proof (cases "writeTrigger P (triggerFile w) (webhook_entry payload (toISOString P (clock w)))")
  case (Inl err)
  then show ?thesis
    by (auto simp: trigger_in_dev_def split_beta log_line_def)
next
  case (Inr r)
  obtain written l where r: "r = (written, l)" by (cases r)
  define v where "v = log_line
      (if written then InfoTriggerWritten (webhook_issueId payload) webhook
       else InfoTriggerDeduped (webhook_issueId payload))
      ((snd (read_clock P w))\<lparr>triggerFile := l\<rparr>)"
  have t: "trigger_in_dev P S payload w =
      direct_spawn S webhook (webhook_issueId payload) (webhook_issueTitle payload)
        (webhook_storyFilePath payload) v"
    using Inr r by (simp add: trigger_in_dev_def split_beta Let_def v_def)
  have "set (logged w) \<subseteq> set (logged v)" "length (logged w) \<le> length (logged v)"
    by (auto simp: v_def log_line_def)
  then show ?thesis
    using direct_spawn_logged [of v S webhook "webhook_issueId payload"
        "webhook_issueTitle payload" "webhook_storyFilePath payload"]
    unfolding t by (meson order_trans)
qed

lemma passes_filters_rules: "passes_filters cfg payload = admission_rules cfg payload"
  by (auto simp: passes_filters_def admission_rules_def)

text \<open>
  Claim C8. For a body that parses, the handler does anything at all (a log line, an
  event, a trigger record, a spawn call) only if the payload has type Issue and action
  update, carries a previous state, and, where a team is configured, has that team;
  every other payload leaves the world as it is: no record, no message, no exception.
  A payload that meets the three rules is processed: its state change is logged.
\<close>

theorem push_admission_rules:
  assumes "JSON_parse_payload P body = Inr payload"
  shows "(process_payload P cfg S body w = w \<longleftrightarrow> \<not> admission_rules cfg payload) \<and>
         (admission_rules cfg payload \<longrightarrow>
            InfoStateChanged (webhook_issueId payload)
              (Option.bind (webhook_newStateId payload) STATE_MAP)
              (webhook_newStateId payload)
              \<in> set (logged (process_payload P cfg S body w)))"
proof (cases "admission_rules cfg payload")
  case False
  then show ?thesis
    using assms by (simp add: process_payload_def passes_filters_rules)
next
  case True
  define w1 where "w1 = report_state_change P cfg payload w"
  define line where "line = InfoStateChanged (webhook_issueId payload)
      (Option.bind (webhook_newStateId payload) STATE_MAP) (webhook_newStateId payload)"
  have l1: "logged w1 = logged w @ [line]"
    by (simp add: w1_def line_def report_logged)
  have pp: "process_payload P cfg S body w =
      (if webhook_newStateId payload = Some IN_DEV_STATE_ID
       then trigger_in_dev P S payload w1 else w1)"
    using assms True by (simp add: process_payload_def passes_filters_rules w1_def)
  have len: "length (logged w) < length (logged (process_payload P cfg S body w))"
    using trigger_in_dev_logged [of w1 P S payload] l1 by (simp add: pp)
  have mem: "line \<in> set (logged (process_payload P cfg S body w))"
  proof (cases "webhook_newStateId payload = Some IN_DEV_STATE_ID")
    case False
    then show ?thesis using l1 by (simp add: pp)
  next
    case ready: True
    have "set (logged w1) \<subseteq> set (logged (trigger_in_dev P S payload w1))"
      using trigger_in_dev_logged [of w1 P S payload] by simp
    then show ?thesis using l1 ready by (auto simp: pp)
  qed
  have "process_payload P cfg S body w \<noteq> w"
    using len by auto
  then show ?thesis
    using True mem by (simp add: line_def)
qed


lemma sample_parse_body:
  "JSON_parse_payload sample_platform sample_body = Inr (push_payload (Some ''CRU-123'') ''Test issue'')"
  by code_simp

lemma push_payload_simps [simp]:
  "webhook_issueId (push_payload (Some i) t) = i"
  "webhook_issueId (push_payload None t) = ''unknown''"
  "webhook_issueTitle (push_payload ident t) = t"
  "webhook_newStateId (push_payload ident t) = Some IN_DEV_STATE_ID"
  "webhook_storyFilePath (push_payload ident t) = None"
  by (simp_all add: push_payload_def webhook_issueId_def webhook_issueTitle_def
      webhook_newStateId_def webhook_storyFilePath_def or_else_def story_path_of_def
      extractStoryFilePath_def)

theorem push_admission_rules_witness:
  "process_payload sample_platform team_config None sample_body empty_world = empty_world \<and>
   process_payload sample_platform open_config None sample_body empty_world \<noteq> empty_world \<and>
   InfoStateChanged ''CRU-123'' (Some (Label ''ready for dev'')) (Some IN_DEV_STATE_ID)
     \<in> set (logged (process_payload sample_platform open_config None sample_body empty_world))"
proof -
  have no: "\<not> admission_rules team_config (push_payload (Some ''CRU-123'') ''Test issue'')"
    by (simp add: admission_rules_def team_config_def push_payload_def)
  have yes: "admission_rules open_config (push_payload (Some ''CRU-123'') ''Test issue'')"
    by (simp add: admission_rules_def open_config_def push_payload_def truthy_def)
  have lbl: "Option.bind (Some IN_DEV_STATE_ID) STATE_MAP = Some (Label ''ready for dev'')"
    by (simp add: STATE_MAP_def IN_DEV_STATE_ID_def)
  show ?thesis
    using push_admission_rules [OF sample_parse_body, of team_config None empty_world]
      push_admission_rules [OF sample_parse_body, of open_config None empty_world]
      no yes lbl
    by simp
qed

text \<open>
  Claim C10. A payload that passes the filters with the ready state and has neither
  \<^verbatim>\<open>data.identifier\<close> nor \<^verbatim>\<open>data.id\<close> gets the issue id \<^verbatim>\<open>unknown\<close>. On a ledger with
  no pending or spawned record of that id the handler appends a record of it; on a
  ledger that has one, whatever work item the payload describes, it writes nothing and
  logs the trigger as deduplicated.
\<close>

theorem identifierless_payload_unknown:
  assumes "JSON_parse_payload P body = Inr payload"
    and "passes_filters cfg payload"
    and "webhook_newStateId payload = Some IN_DEV_STATE_ID"
    and "Option.bind (payload_data payload) data_identifier = None"
    and "Option.bind (payload_data payload) data_id = None"
    and "readTriggerLog P (triggerFile w) = Inr recs"
  shows "webhook_issueId payload = ''unknown'' \<and>
     (if list_ex (blocks ''unknown'') recs
      then triggerFile (process_payload P cfg S body w) = triggerFile w \<and>
           InfoTriggerDeduped ''unknown'' \<in> set (logged (process_payload P cfg S body w))
      else (\<exists>now. issueId (webhook_entry payload now) = ''unknown'' \<and>
              triggerFile (process_payload P cfg S body w) =
                append_pending P (triggerFile w) (webhook_entry payload now)) \<and>
           InfoTriggerWritten ''unknown'' webhook
             \<in> set (logged (process_payload P cfg S body w)))"
proof -
  have iid: "webhook_issueId payload = ''unknown''"
    using assms(4,5) by (simp add: webhook_issueId_def or_else_def)
  define w1 where "w1 = report_state_change P cfg payload w"
  have pp: "process_payload P cfg S body w = trigger_in_dev P S payload w1"
    using assms(1,2,3) by (simp add: process_payload_def w1_def)
  have rd: "readTriggerLog P (triggerFile w1) = Inr recs"
    using assms(6) by (simp add: w1_def)
  have led: "triggerFile w1 = triggerFile w"
    by (simp add: w1_def)
  show ?thesis
  proof (cases "list_ex (blocks ''unknown'') recs")
    case True
    then have b: "list_ex (blocks (webhook_issueId payload)) recs" by (simp add: iid)
    define v where "v = log_line (InfoTriggerDeduped ''unknown'')
        ((snd (read_clock P w1))\<lparr>triggerFile := triggerFile w1\<rparr>)"
    have t: "process_payload P cfg S body w =
        direct_spawn S webhook ''unknown'' (webhook_issueTitle payload)
          (webhook_storyFilePath payload) v"
      using trigger_in_dev_dedups [OF rd b, of S] by (simp add: pp iid v_def)
    have "InfoTriggerDeduped ''unknown'' \<in> set (logged v)"
      by (simp add: v_def log_line_def)
    then have "InfoTriggerDeduped ''unknown'' \<in> set (logged (process_payload P cfg S body w))"
      using direct_spawn_logged [of v S webhook "''unknown''" "webhook_issueTitle payload"
          "webhook_storyFilePath payload"]
      unfolding t by blast
    moreover have "triggerFile (process_payload P cfg S body w) = triggerFile w"
      unfolding t by (simp add: v_def led)
    ultimately show ?thesis using True iid by simp
  next
    case False
    then have b: "\<not> list_ex (blocks (webhook_issueId payload)) recs" by (simp add: iid)
    define x where "x = webhook_entry payload (toISOString P (clock w1))"
    define v where "v = log_line (InfoTriggerWritten ''unknown'' webhook)
        ((snd (read_clock P w1))\<lparr>triggerFile := append_pending P (triggerFile w1) x\<rparr>)"
    have t: "process_payload P cfg S body w =
        direct_spawn S webhook ''unknown'' (webhook_issueTitle payload)
          (webhook_storyFilePath payload) v"
      using trigger_in_dev_admits [OF rd b, of S] by (simp add: pp iid v_def x_def)
    have "InfoTriggerWritten ''unknown'' webhook \<in> set (logged v)"
      by (simp add: v_def log_line_def)
    then have "InfoTriggerWritten ''unknown'' webhook
        \<in> set (logged (process_payload P cfg S body w))"
      using direct_spawn_logged [of v S webhook "''unknown''" "webhook_issueTitle payload"
          "webhook_storyFilePath payload"]
      unfolding t by blast
    moreover have "triggerFile (process_payload P cfg S body w) =
        append_pending P (triggerFile w) x"
      unfolding t by (simp add: v_def led)
    moreover have "issueId x = ''unknown''"
      by (simp add: x_def webhook_entry_def iid)
    ultimately show ?thesis using False iid x_def by auto
  qed
qed

lemma sample_codec_unknown: "codec_ok sample_platform (fullEntry unknown_input)"
  by code_simp

theorem identifierless_payload_unknown_witness:
  "triggerFile (process_payload sample_platform open_config None anonymous_body empty_world) =
     Some (sample_stringify (fullEntry unknown_input) @ [LF]) \<and>
   readTriggerLog sample_platform
     (triggerFile (process_payload sample_platform open_config None anonymous_body empty_world)) =
     Inr [fullEntry unknown_input] \<and>
   triggerFile (process_payload sample_platform open_config None other_anonymous_body
      (process_payload sample_platform open_config None anonymous_body empty_world)) =
     Some (sample_stringify (fullEntry unknown_input) @ [LF]) \<and>
   InfoTriggerDeduped ''unknown''
     \<in> set (logged (process_payload sample_platform open_config None other_anonymous_body
          (process_payload sample_platform open_config None anonymous_body empty_world)))"
proof -
  define w1 where
    "w1 = process_payload sample_platform open_config None anonymous_body empty_world"
  have first: "triggerFile w1 = Some (sample_stringify (fullEntry unknown_input) @ [LF])"
    unfolding w1_def by code_simp
  have rd: "readTriggerLog sample_platform (triggerFile w1) = Inr [fullEntry unknown_input]"
    using read_after_append [of None sample_platform "[]" "fullEntry unknown_input"]
      sample_codec_unknown
    by (simp add: first ends_clean_def readTriggerLog_def appendFileSync_def sample_platform_def)
  have parse: "JSON_parse_payload sample_platform other_anonymous_body =
      Inr (push_payload None ''Another item'')"
    by code_simp
  have pass: "passes_filters open_config (push_payload None ''Another item'')"
    by (simp add: passes_filters_def open_config_def push_payload_def truthy_def)
  have none: "Option.bind (payload_data (push_payload None ''Another item'')) data_identifier = None"
    "Option.bind (payload_data (push_payload None ''Another item'')) data_id = None"
    by (simp_all add: push_payload_def)
  have blk: "list_ex (blocks ''unknown'') [fullEntry unknown_input]"
    by (simp add: blocks_def unknown_input_def sample_input_def fullEntry_def)
  from identifierless_payload_unknown [OF parse pass _ none rd, of None] blk
  have "triggerFile (process_payload sample_platform open_config None other_anonymous_body w1) =
      triggerFile w1"
    and "InfoTriggerDeduped ''unknown''
      \<in> set (logged (process_payload sample_platform open_config None other_anonymous_body w1))"
    by simp_all
  then show ?thesis
    using first rd unfolding w1_def by simp
qed


subsection \<open>The webhook secret\<close>

lemma process_payload_secret:
  "process_payload P (cfg\<lparr>webhookSecret := s\<rparr>) S body w = process_payload P cfg S body w"
  by (simp add: process_payload_def passes_filters_def report_state_change_def
      split: sum.splits)

lemma linear_poll_secret:
  "linear_poll P (cfg\<lparr>webhookSecret := s\<rparr>) S fetched w = linear_poll P cfg S fetched w"
  by (simp add: linear_poll_def)

text \<open>
  Claim C3, as stated, fails: with an empty secret an unsigned request is answered 200,
  its event is processed and its trigger record is written.
\<close>

theorem empty_secret_counterexample:
  "webhookSecret open_config = [] \<and>
   req_signature (unsigned_request sample_body) = None \<and>
   fst (webhook_handler sample_platform open_config None (unsigned_request sample_body)
          empty_world) = 200 \<and>
   triggerFile (snd (webhook_handler sample_platform open_config None
          (unsigned_request sample_body) empty_world)) =
     Some (sample_stringify (fullEntry (sample_input ''CRU-123'' webhook)) @ [LF]) \<and>
   logged (snd (webhook_handler sample_platform open_config None
          (unsigned_request sample_body) empty_world)) =
     [InfoStateChanged ''CRU-123'' (Some (Label ''ready for dev'')) (Some IN_DEV_STATE_ID),
      InfoTriggerWritten ''CRU-123'' webhook]"
  by code_simp

text \<open>
  Claim C3, amended. With an empty secret the handler verifies no signature: every POST
  request is answered 200 and its body is processed, whatever the signature header, and
  exactly as under a non-empty secret with the matching signature. The poll command does
  not depend on the secret.
\<close>

theorem empty_secret_skips_verification:
  assumes "webhookSecret cfg = []" and "req_method req = ''POST''"
  shows "webhook_handler P cfg S req w = (200, process_payload P cfg S (req_body req) w) \<and>
    (\<forall>sig. webhook_handler P cfg S (req\<lparr>req_signature := sig\<rparr>) w =
            webhook_handler P cfg S req w) \<and>
    (\<forall>secret. secret \<noteq> [] \<and> createHmac_sha256_hex P secret (req_body req) \<noteq> [] \<longrightarrow>
       webhook_handler P (cfg\<lparr>webhookSecret := secret\<rparr>) S
         (req\<lparr>req_signature := Some (createHmac_sha256_hex P secret (req_body req))\<rparr>) w =
       webhook_handler P cfg S req w) \<and>
    (\<forall>secret fetched.
       linear_poll P (cfg\<lparr>webhookSecret := secret\<rparr>) S fetched w =
       linear_poll P cfg S fetched w)"
  using assms
  by (simp add: webhook_handler_def Let_def verifySignature_def process_payload_secret
      linear_poll_secret)

theorem empty_secret_skips_verification_witness:
  "webhook_handler sample_platform open_config None (unsigned_request sample_body) empty_world =
     (200, process_payload sample_platform open_config None sample_body empty_world) \<and>
   webhook_handler sample_platform (open_config\<lparr>webhookSecret := sample_secret\<rparr>) None
     ((unsigned_request sample_body)\<lparr>req_signature :=
        Some ''ee941c4713f4ad13e1ec0f7384d0b69390a7c8a8a56ebcb5480db07d529ff651''\<rparr>)
     empty_world =
   webhook_handler sample_platform open_config None (unsigned_request sample_body) empty_world"
proof -
  have h: "createHmac_sha256_hex sample_platform sample_secret sample_body =
      ''ee941c4713f4ad13e1ec0f7384d0b69390a7c8a8a56ebcb5480db07d529ff651''"
    by code_simp
  have ne: "sample_secret \<noteq> []"
    by (simp add: sample_secret_def)
  have a: "webhookSecret open_config = []" "req_method (unsigned_request sample_body) = ''POST''"
    "req_body (unsigned_request sample_body) = sample_body"
    by (simp_all add: open_config_def unsigned_request_def)
  note t = empty_secret_skips_verification [OF a(1,2), of sample_platform None empty_world]
  from t have one: "webhook_handler sample_platform open_config None
      (unsigned_request sample_body) empty_world =
      (200, process_payload sample_platform open_config None sample_body empty_world)"
    by (simp add: a(3))
  from t have "sample_secret \<noteq> [] \<and>
      createHmac_sha256_hex sample_platform sample_secret sample_body \<noteq> [] \<longrightarrow>
      webhook_handler sample_platform (open_config\<lparr>webhookSecret := sample_secret\<rparr>) None
        ((unsigned_request sample_body)\<lparr>req_signature :=
           Some (createHmac_sha256_hex sample_platform sample_secret sample_body)\<rparr>)
        empty_world =
      webhook_handler sample_platform open_config None (unsigned_request sample_body) empty_world"
    unfolding a(3) by blast
  then show ?thesis
    using one ne unfolding h by simp
qed

subsection \<open>The outcome of the direct spawn\<close>

text \<open>
  Claim C4, as stated, fails: after a direct spawn that succeeded the record of the
  ledger still has status pending.
\<close>

theorem dispatch_success_counterexample:
  "readTriggerLog sample_platform
     (triggerFile (snd (webhook_handler sample_platform open_config (Some spawn_succeeds)
        (unsigned_request sample_body) empty_world))) =
     Inr [fullEntry (sample_input ''CRU-123'' webhook)] \<and>
   status (fullEntry (sample_input ''CRU-123'' webhook)) = pending \<and>
   logged (snd (webhook_handler sample_platform open_config (Some spawn_succeeds)
        (unsigned_request sample_body) empty_world)) =
     [InfoStateChanged ''CRU-123'' (Some (Label ''ready for dev'')) (Some IN_DEV_STATE_ID),
      InfoTriggerWritten ''CRU-123'' webhook,
      InfoSpawnSucceeded ''CRU-123'' webhook]"
  by code_simp

text \<open>
  Claim C4, amended. When every direct spawn succeeds, the ledger, the event log and the
  error lines are those of a run without any spawn capability; what a handler leaves in
  the ledger is what was there followed by lines of records with status pending; and for
  a trigger that is admitted the line appended is that of its pending record, the success
  being the last message logged.
\<close>

theorem dispatch_success_not_recorded:
  assumes "\<forall>args. spawn args = SpawnResolves True"
  shows
    "same_ingestion (snd (webhook_handler P cfg (Some spawn) req w))
       (snd (webhook_handler P cfg None req w)) \<and>
     (\<exists>es. list_all (\<lambda>e. status e = pending) es \<and>
        triggerFile (snd (webhook_handler P cfg (Some spawn) req w)) =
          append_lines P (triggerFile w) es) \<and>
     same_ingestion (snd (linear_poll P cfg (Some spawn) fetched w))
       (snd (linear_poll P cfg None fetched w)) \<and>
     (\<exists>es. list_all (\<lambda>e. status e = pending) es \<and>
        triggerFile (snd (linear_poll P cfg (Some spawn) fetched w)) =
          append_lines P (triggerFile w) es) \<and>
     (\<forall>payload recs.
        readTriggerLog P (triggerFile w) = Inr recs \<and>
        \<not> list_ex (blocks (webhook_issueId payload)) recs \<longrightarrow>
        triggerFile (trigger_in_dev P (Some spawn) payload w) =
          append_pending P (triggerFile w) (webhook_entry payload (toISOString P (clock w))) \<and>
        last (logged (trigger_in_dev P (Some spawn) payload w)) =
          InfoSpawnSucceeded (webhook_issueId payload) webhook)"
proof (intro conjI allI impI)
  show "same_ingestion (snd (webhook_handler P cfg (Some spawn) req w))
       (snd (webhook_handler P cfg None req w))"
    using webhook_handler_same by blast
  show "\<exists>es. list_all (\<lambda>e. status e = pending) es \<and>
        triggerFile (snd (webhook_handler P cfg (Some spawn) req w)) =
          append_lines P (triggerFile w) es"
    using webhook_handler_ledger by blast
  show "same_ingestion (snd (linear_poll P cfg (Some spawn) fetched w))
       (snd (linear_poll P cfg None fetched w))"
    using linear_poll_same by blast
  show "\<exists>es. list_all (\<lambda>e. status e = pending) es \<and>
        triggerFile (snd (linear_poll P cfg (Some spawn) fetched w)) =
          append_lines P (triggerFile w) es"
    using linear_poll_ledger by blast
next
  fix payload recs
  assume a: "readTriggerLog P (triggerFile w) = Inr recs \<and>
        \<not> list_ex (blocks (webhook_issueId payload)) recs"
  then have t: "trigger_in_dev P (Some spawn) payload w =
     direct_spawn (Some spawn) webhook (webhook_issueId payload) (webhook_issueTitle payload)
       (webhook_storyFilePath payload)
       (log_line (InfoTriggerWritten (webhook_issueId payload) webhook)
          ((snd (read_clock P w))\<lparr>triggerFile :=
             append_pending P (triggerFile w)
               (webhook_entry payload (toISOString P (clock w)))\<rparr>))"
    using trigger_in_dev_admits by blast
  show "triggerFile (trigger_in_dev P (Some spawn) payload w) =
          append_pending P (triggerFile w) (webhook_entry payload (toISOString P (clock w)))"
    unfolding t by simp
  show "last (logged (trigger_in_dev P (Some spawn) payload w)) =
          InfoSpawnSucceeded (webhook_issueId payload) webhook"
    unfolding t using assms by (simp add: direct_spawn_def log_line_def Let_def)
qed

lemma sample_webhook_entry:
  "webhook_entry (push_payload (Some ''CRU-123'') ''Test issue'')
     (toISOString sample_platform n) = sample_input ''CRU-123'' webhook"
  by (simp add: webhook_entry_def sample_input_def sample_platform_def)

theorem dispatch_success_not_recorded_witness:
  "triggerFile (snd (webhook_handler sample_platform open_config (Some spawn_succeeds)
      (unsigned_request sample_body) empty_world)) =
   triggerFile (snd (webhook_handler sample_platform open_config None
      (unsigned_request sample_body) empty_world)) \<and>
   triggerFile (trigger_in_dev sample_platform (Some spawn_succeeds)
      (push_payload (Some ''CRU-123'') ''Test issue'') empty_world) =
     Some (sample_stringify (fullEntry (sample_input ''CRU-123'' webhook)) @ [LF]) \<and>
   last (logged (trigger_in_dev sample_platform (Some spawn_succeeds)
      (push_payload (Some ''CRU-123'') ''Test issue'') empty_world)) =
     InfoSpawnSucceeded ''CRU-123'' webhook"
proof -
  have ok: "\<forall>args. spawn_succeeds args = SpawnResolves True"
    by (simp add: spawn_succeeds_def)
  have rd: "readTriggerLog sample_platform (triggerFile empty_world) = Inr []"
    by (simp add: readTriggerLog_def empty_world_def)
  note t = dispatch_success_not_recorded [OF ok, of sample_platform open_config
      "unsigned_request sample_body" empty_world "Inr []"]
  from t have one: "triggerFile (snd (webhook_handler sample_platform open_config
      (Some spawn_succeeds) (unsigned_request sample_body) empty_world)) =
    triggerFile (snd (webhook_handler sample_platform open_config None
      (unsigned_request sample_body) empty_world))"
    by (simp add: same_ingestion_def)
  from t have "readTriggerLog sample_platform (triggerFile empty_world) = Inr [] \<and>
      \<not> list_ex (blocks (webhook_issueId (push_payload (Some ''CRU-123'') ''Test issue''))) [] \<longrightarrow>
      triggerFile (trigger_in_dev sample_platform (Some spawn_succeeds)
        (push_payload (Some ''CRU-123'') ''Test issue'') empty_world) =
      append_pending sample_platform (triggerFile empty_world)
        (webhook_entry (push_payload (Some ''CRU-123'') ''Test issue'')
           (toISOString sample_platform (clock empty_world))) \<and>
      last (logged (trigger_in_dev sample_platform (Some spawn_succeeds)
        (push_payload (Some ''CRU-123'') ''Test issue'') empty_world)) =
      InfoSpawnSucceeded (webhook_issueId (push_payload (Some ''CRU-123'') ''Test issue'')) webhook"
    by blast
  moreover have "append_pending sample_platform (triggerFile empty_world)
        (webhook_entry (push_payload (Some ''CRU-123'') ''Test issue'')
           (toISOString sample_platform (clock empty_world))) =
      Some (sample_stringify (fullEntry (sample_input ''CRU-123'' webhook)) @ [LF])"
    unfolding sample_webhook_entry
    by (simp add: append_pending_def appendFileSync_def empty_world_def sample_platform_def)
  ultimately show ?thesis
    using one rd by simp
qed

text \<open>
  Claim C7. Whichever calls of the direct spawn throw, the webhook handler answers as it
  does without any spawn capability and the poll command gives the same reply (the same
  issues, the same count of triggers), and both leave the same ledger, event log and
  error lines: the sweep goes on after a failure. For a trigger that is admitted and
  whose spawn throws, the line appended is that of its pending record, and the failure
  is logged at level info after the message that the trigger was written.
\<close>

theorem dispatch_failure_swallowed:
  "fst (webhook_handler P cfg (Some spawn) req w) = fst (webhook_handler P cfg None req w) \<and>
   same_ingestion (snd (webhook_handler P cfg (Some spawn) req w))
     (snd (webhook_handler P cfg None req w)) \<and>
   fst (linear_poll P cfg (Some spawn) fetched w) = fst (linear_poll P cfg None fetched w) \<and>
   same_ingestion (snd (linear_poll P cfg (Some spawn) fetched w))
     (snd (linear_poll P cfg None fetched w)) \<and>
   (\<forall>payload recs msg.
      readTriggerLog P (triggerFile w) = Inr recs \<and>
      \<not> list_ex (blocks (webhook_issueId payload)) recs \<and>
      spawn (spawn_args (webhook_issueId payload) (webhook_issueTitle payload)
               (webhook_storyFilePath payload)) = SpawnThrows msg \<longrightarrow>
      triggerFile (trigger_in_dev P (Some spawn) payload w) =
        append_pending P (triggerFile w) (webhook_entry payload (toISOString P (clock w))) \<and>
      logged (trigger_in_dev P (Some spawn) payload w) =
        logged w @ [InfoTriggerWritten (webhook_issueId payload) webhook,
                    InfoSpawnUnavailable (webhook_issueId payload) webhook msg])"
proof (intro conjI allI impI)
  show "fst (webhook_handler P cfg (Some spawn) req w) = fst (webhook_handler P cfg None req w)"
    using webhook_handler_same by blast
  show "same_ingestion (snd (webhook_handler P cfg (Some spawn) req w))
       (snd (webhook_handler P cfg None req w))"
    using webhook_handler_same by blast
  show "fst (linear_poll P cfg (Some spawn) fetched w) = fst (linear_poll P cfg None fetched w)"
    using linear_poll_same by blast
  show "same_ingestion (snd (linear_poll P cfg (Some spawn) fetched w))
       (snd (linear_poll P cfg None fetched w))"
    using linear_poll_same by blast
next
  fix payload recs msg
  assume a: "readTriggerLog P (triggerFile w) = Inr recs \<and>
      \<not> list_ex (blocks (webhook_issueId payload)) recs \<and>
      spawn (spawn_args (webhook_issueId payload) (webhook_issueTitle payload)
               (webhook_storyFilePath payload)) = SpawnThrows msg"
  then have t: "trigger_in_dev P (Some spawn) payload w =
     direct_spawn (Some spawn) webhook (webhook_issueId payload) (webhook_issueTitle payload)
       (webhook_storyFilePath payload)
       (log_line (InfoTriggerWritten (webhook_issueId payload) webhook)
          ((snd (read_clock P w))\<lparr>triggerFile :=
             append_pending P (triggerFile w)
               (webhook_entry payload (toISOString P (clock w)))\<rparr>))"
    using trigger_in_dev_admits by blast
  show "triggerFile (trigger_in_dev P (Some spawn) payload w) =
          append_pending P (triggerFile w) (webhook_entry payload (toISOString P (clock w)))"
    unfolding t by simp
  show "logged (trigger_in_dev P (Some spawn) payload w) =
        logged w @ [InfoTriggerWritten (webhook_issueId payload) webhook,
                    InfoSpawnUnavailable (webhook_issueId payload) webhook msg]"
    unfolding t using a by (simp add: direct_spawn_def log_line_def Let_def)
qed


theorem dispatch_failure_swallowed_witness:
  "fst (linear_poll sample_platform team_config (Some spawn_fails)
      (Inr [sample_issue ''CRU-123'', sample_issue ''CRU-456'']) empty_world) =
     Summary [sample_issue ''CRU-123'', sample_issue ''CRU-456''] 2 \<and>
   readTriggerLog sample_platform
     (triggerFile (snd (linear_poll sample_platform team_config (Some spawn_fails)
        (Inr [sample_issue ''CRU-123'', sample_issue ''CRU-456'']) empty_world))) =
     Inr [fullEntry (sample_input ''CRU-123'' poll), fullEntry (sample_input ''CRU-456'' poll)]"
proof -
  have a: "fst (linear_poll sample_platform team_config None
      (Inr [sample_issue ''CRU-123'', sample_issue ''CRU-456'']) empty_world) =
     Summary [sample_issue ''CRU-123'', sample_issue ''CRU-456''] 2"
    by code_simp
  have b: "readTriggerLog sample_platform
     (triggerFile (snd (linear_poll sample_platform team_config None
        (Inr [sample_issue ''CRU-123'', sample_issue ''CRU-456'']) empty_world))) =
     Inr [fullEntry (sample_input ''CRU-123'' poll), fullEntry (sample_input ''CRU-456'' poll)]"
    by code_simp
  show ?thesis
    using dispatch_failure_swallowed [of sample_platform team_config spawn_fails
        "unsigned_request sample_body" empty_world
        "Inr [sample_issue ''CRU-123'', sample_issue ''CRU-456'']"] a b
    by (simp add: same_ingestion_def)
qed

end
